theory Spec2Isabelle
  imports Complex_Main "HOL-Library.Sublist" "HOL-Library.AList" "HOL-Library.Multiset"
begin

section \<open>Data model\<close>

text \<open>
  Python strings are modelled as \<^typ>\<open>string\<close>, read as the UTF-8 bytes of the text.
  Floats are modelled by the rationals they denote (rounding to a double, infinities and
  NaN are not modelled). Printing to the console is not modelled.

  \<^verbatim>\<open>models.py\<close> is not among the source files; the records below carry the fields
  that \<^verbatim>\<open>thesaurus.py\<close>, \<^verbatim>\<open>matching.py\<close> and \<^verbatim>\<open>batching.py\<close> read and write.
\<close>

record concept =
  uri :: string
  name :: string
  category :: string
  alternate_names :: "string list option"
  description :: "string option"
  top_concept :: "string list"
  narrower :: "string list"

record segment =
  seg_start :: rat
  seg_end :: rat
  seg_text :: string

record matched_concept =
  concept :: concept
  source :: string
  score :: "rat option"

section \<open>batching.py\<close>

text \<open>
  The tokenizer is the external library \<^verbatim>\<open>tiktoken\<close>: \<open>enc s\<close> stands for
  \<^verbatim>\<open>len(encoding.encode(s))\<close> with the encoding that \<^verbatim>\<open>_get_encoding_for_model(model)\<close>
  selects. The prompt templates live in \<^verbatim>\<open>prompts.py\<close>, which is not among the source
  files: \<open>dummy_prompt\<close> stands for the template applied to the empty item list.
  \<open>max_tokens\<close> is the integer the callers pass; the default of the signature, the
  string \<^verbatim>\<open>"800000"\<close>, with which the comparison raises \<^verbatim>\<open>TypeError\<close>, is not modelled.
\<close>

text \<open>\<^verbatim>\<open>text.replace("\n", " ")\<close>\<close>

definition replace_newlines :: "string \<Rightarrow> string" where
  "replace_newlines s = map (\<lambda>c. if c = CHR 0x0A then CHR '' '' else c) s"

text \<open>
  \<^verbatim>\<open>str.strip()\<close> removes the white space of Unicode at both ends. These are the
  UTF-8 encodings of the code points for which \<^verbatim>\<open>str.isspace()\<close> holds.
\<close>

definition unicode_whitespace :: "string list" where
  "unicode_whitespace =
     [[CHR 0x09], [CHR 0x0A], [CHR 0x0B], [CHR 0x0C], [CHR 0x0D],
      [CHR 0x1C], [CHR 0x1D], [CHR 0x1E], [CHR 0x1F], [CHR 0x20],
      [CHR 0xC2, CHR 0x85], [CHR 0xC2, CHR 0xA0],
      [CHR 0xE1, CHR 0x9A, CHR 0x80],
      [CHR 0xE2, CHR 0x80, CHR 0x80], [CHR 0xE2, CHR 0x80, CHR 0x81],
      [CHR 0xE2, CHR 0x80, CHR 0x82], [CHR 0xE2, CHR 0x80, CHR 0x83],
      [CHR 0xE2, CHR 0x80, CHR 0x84], [CHR 0xE2, CHR 0x80, CHR 0x85],
      [CHR 0xE2, CHR 0x80, CHR 0x86], [CHR 0xE2, CHR 0x80, CHR 0x87],
      [CHR 0xE2, CHR 0x80, CHR 0x88], [CHR 0xE2, CHR 0x80, CHR 0x89],
      [CHR 0xE2, CHR 0x80, CHR 0x8A], [CHR 0xE2, CHR 0x80, CHR 0xA8],
      [CHR 0xE2, CHR 0x80, CHR 0xA9], [CHR 0xE2, CHR 0x80, CHR 0xAF],
      [CHR 0xE2, CHR 0x81, CHR 0x9F], [CHR 0xE3, CHR 0x80, CHR 0x80]]"

text \<open>The number of leading bytes of \<open>s\<close> that form one white-space code point (0 if none).\<close>

definition space_prefix_len :: "string list \<Rightarrow> string \<Rightarrow> nat" where
  "space_prefix_len ws s = (case List.find (\<lambda>w. w \<noteq> [] \<and> prefix w s) ws of
                              None \<Rightarrow> 0 | Some w \<Rightarrow> length w)"

function strip_prefixes :: "string list \<Rightarrow> string \<Rightarrow> string" where
  "strip_prefixes ws s =
     (if space_prefix_len ws s = 0 then s
      else strip_prefixes ws (drop (space_prefix_len ws s) s))"
  by pat_completeness auto

lemma space_prefix_len_le: "space_prefix_len ws s \<le> length s"
  by (auto simp: space_prefix_len_def find_Some_iff prefix_def split: option.splits)

termination strip_prefixes
proof (relation "measure (\<lambda>(ws, s). length s)")
  show "wf (measure (\<lambda>(ws, s). length s))" by simp
next
  fix ws :: "string list" and s :: string
  assume "space_prefix_len ws s \<noteq> 0"
  moreover have "space_prefix_len ws s \<le> length s" by (rule space_prefix_len_le)
  ultimately show "((ws, drop (space_prefix_len ws s) s), (ws, s)) \<in> measure (\<lambda>(ws, s). length s)"
    by simp
qed

declare strip_prefixes.simps [simp del]

definition lstrip :: "string \<Rightarrow> string" where
  "lstrip s = strip_prefixes unicode_whitespace s"

definition rstrip :: "string \<Rightarrow> string" where
  "rstrip s = rev (strip_prefixes (map rev unicode_whitespace) (rev s))"

definition strip :: "string \<Rightarrow> string" where
  "strip s = rstrip (lstrip s)"

subsection \<open>\<^verbatim>\<open>_batch_segments_by_tokens\<close>\<close>

text \<open>
  The \<^verbatim>\<open>for\<close> loop, with its three variables \<^verbatim>\<open>batches\<close>, \<^verbatim>\<open>current_batch\<close>
  and \<^verbatim>\<open>current_tokens\<close> as arguments; the last equation is the code after the loop.
\<close>

definition segment_token_count :: "(string \<Rightarrow> nat) \<Rightarrow> segment \<Rightarrow> int" where
  "segment_token_count enc seg = int (enc (strip (replace_newlines (seg_text seg)))) + 10"

fun batch_segments_loop ::
  "(string \<Rightarrow> nat) \<Rightarrow> int \<Rightarrow> int \<Rightarrow> segment list \<Rightarrow>
   segment list list \<Rightarrow> segment list \<Rightarrow> int \<Rightarrow> segment list list" where
  "batch_segments_loop enc dummy_prompt_tokens max_tokens [] batches current_batch current_tokens =
     (if current_batch \<noteq> [] then batches @ [current_batch] else batches)"
| "batch_segments_loop enc dummy_prompt_tokens max_tokens (seg # segs) batches current_batch current_tokens =
     (let token_count = segment_token_count enc seg in
      if current_tokens + token_count + dummy_prompt_tokens > max_tokens then
        (if current_batch \<noteq> [] then
           batch_segments_loop enc dummy_prompt_tokens max_tokens segs
             (batches @ [current_batch]) ([] @ [seg]) (0 + token_count)
         else
           batch_segments_loop enc dummy_prompt_tokens max_tokens segs
             batches (current_batch @ [seg]) (current_tokens + token_count))
      else
        batch_segments_loop enc dummy_prompt_tokens max_tokens segs
          batches (current_batch @ [seg]) (current_tokens + token_count))"

definition batch_segments_by_tokens ::
  "(string \<Rightarrow> nat) \<Rightarrow> string \<Rightarrow> segment list \<Rightarrow> int \<Rightarrow> segment list list" where
  "batch_segments_by_tokens enc dummy_prompt segments max_tokens =
     batch_segments_loop enc (int (enc dummy_prompt)) max_tokens segments [] [] 0"

subsection \<open>\<^verbatim>\<open>_batch_concept_labels_by_tokens\<close>\<close>

definition label_token_count :: "(string \<Rightarrow> nat) \<Rightarrow> string \<Rightarrow> int" where
  "label_token_count enc label = int (enc label) + 5"

fun batch_labels_loop ::
  "(string \<Rightarrow> nat) \<Rightarrow> int \<Rightarrow> string list \<Rightarrow>
   string list list \<Rightarrow> string list \<Rightarrow> int \<Rightarrow> string list list" where
  "batch_labels_loop enc available_tokens [] batches current_batch current_tokens =
     (if current_batch \<noteq> [] then batches @ [current_batch] else batches)"
| "batch_labels_loop enc available_tokens (label # labels) batches current_batch current_tokens =
     (let token_count = label_token_count enc label in
      if current_tokens + token_count > available_tokens \<and> current_batch \<noteq> [] then
        batch_labels_loop enc available_tokens labels
          (batches @ [current_batch]) ([] @ [label]) (0 + token_count)
      else
        batch_labels_loop enc available_tokens labels
          batches (current_batch @ [label]) (current_tokens + token_count))"

definition batch_concept_labels_by_tokens ::
  "(string \<Rightarrow> nat) \<Rightarrow> string \<Rightarrow> string list \<Rightarrow> int \<Rightarrow> string list list" where
  "batch_concept_labels_by_tokens enc dummy_prompt labels max_tokens =
     (let dummy_prompt_tokens = int (enc dummy_prompt);
          available_tokens = max 0 (max_tokens - dummy_prompt_tokens)
      in batch_labels_loop enc available_tokens labels [] [] 0)"


section \<open>Errors and external libraries\<close>

text \<open>
  Exceptions are values: a function that can raise returns \<open>error + 'a\<close>, with \<open>Inl\<close> the
  exception. \<open>TooManyAttempts\<close> is the \<^verbatim>\<open>Exception("Too many attempts, ...")\<close> of
  \<^verbatim>\<open>_safe_chat_call\<close>; \<open>RateLimitError\<close> and \<open>OpenAIError\<close> carry \<^verbatim>\<open>str(e)\<close>.
\<close>

datatype error =
    IndexError | AttributeError | TypeError | ValueError | OverflowError | JSONDecodeError
  | RateLimitError string | OpenAIError string | TooManyAttempts

text \<open>The value \<^verbatim>\<open>json.loads\<close> returns.\<close>

datatype json =
    JNull | JBool bool | JInt int | JFloat rat | JString string
  | JArray "json list" | JObject "(string \<times> json) list"

text \<open>
  What the code calls and the repository does not define:
  \<^item> \<open>tokens s\<close> is \<^verbatim>\<open>len(encoding.encode(s))\<close> (tiktoken);
  \<^item> \<open>build_topdown_matching_prompt\<close> is the template of \<^verbatim>\<open>prompts.py\<close>;
  \<^item> \<open>json_loads\<close> is \<^verbatim>\<open>json.loads\<close>, \<open>None\<close> when it raises \<^verbatim>\<open>JSONDecodeError\<close>; a JSON
    object is the association list of the resulting \<^verbatim>\<open>dict\<close>;
  \<^item> \<open>py_float\<close> is the builtin \<^verbatim>\<open>float\<close> applied to a decoded JSON value;
  \<^item> \<open>str_lower\<close>, \<open>re_escape\<close> and \<open>re_search\<close> are \<^verbatim>\<open>str.lower\<close>, \<^verbatim>\<open>re.escape\<close> and
    whether \<^verbatim>\<open>re.search(pattern, text)\<close> finds a match.
\<close>

record ext =
  tokens :: "string \<Rightarrow> nat"
  build_topdown_matching_prompt :: "string list \<Rightarrow> string \<Rightarrow> string"
  json_loads :: "string \<Rightarrow> json option"
  py_float :: "json \<Rightarrow> error + rat"
  str_lower :: "string \<Rightarrow> string"
  re_escape :: "string \<Rightarrow> string"
  re_search :: "string \<Rightarrow> string \<Rightarrow> bool"

section \<open>response\_cleaner.py\<close>

text \<open>\<^verbatim>\<open>s.split(sep)\<close> for a separator that is not empty: \<open>piece\<close> collects the current part.\<close>

function split_from :: "string \<Rightarrow> string \<Rightarrow> string \<Rightarrow> string list" where
  "split_from sep piece [] = [piece]"
| "split_from sep piece (c # cs) =
     (if sep \<noteq> [] \<and> prefix sep (c # cs)
      then piece # split_from sep [] (drop (length sep) (c # cs))
      else split_from sep (piece @ [c]) cs)"
  by pat_completeness auto
termination
  by (relation "measure (\<lambda>(sep, piece, s). length s)") auto

definition py_split :: "string \<Rightarrow> string \<Rightarrow> string list" where
  "py_split s sep = split_from sep [] s"

definition fence :: string where
  "fence = [CHR 0x60, CHR 0x60, CHR 0x60]"

definition clean_json_output :: "string \<Rightarrow> error + string" where
  "clean_json_output response_text =
     (let r = strip response_text;
          r1 = (if prefix (fence @ ''json'') r then Inr (drop 7 r)
                else if prefix fence r then Inr (drop 3 r)
                else if prefix ''<think>'' r then
                  (case py_split r ''</think>'' of
                     _ # part # _ \<Rightarrow> Inr part
                   | _ \<Rightarrow> Inl IndexError)
                else Inr r)
      in case r1 of
           Inl e \<Rightarrow> Inl e
         | Inr r2 \<Rightarrow> Inr (strip (if suffix fence r2 then take (length r2 - 3) r2 else r2)))"

section \<open>openai\_client.py and chat\_router.py\<close>

text \<open>
  The OpenAI service is a sequence of outcomes: \<open>api n prompt\<close> is what request number \<open>n\<close>
  (from 0) returns when it is sent with \<open>prompt\<close>: the content of the reply, or the
  exception the client library raises. The \<open>world\<close> lists the prompts of the requests
  sent so far and the durations slept. The API key and the system message do not
  influence the control flow and are left out.
\<close>

record world =
  requests :: "string list"
  sleeps :: "rat list"

definition openai_client_chat ::
  "(nat \<Rightarrow> string \<Rightarrow> error + string) \<Rightarrow> string \<Rightarrow> world \<Rightarrow> (error + string) \<times> world" where
  "openai_client_chat api prompt w =
     (api (length (requests w)) prompt, w\<lparr>requests := requests w @ [prompt]\<rparr>)"

text \<open>
  The decimal digits of Unicode (version 14.0, the one of Python 3.11), which \<^verbatim>\<open>\d\<close>
  matches and \<^verbatim>\<open>float\<close> accepts: each script has its ten digits in a row, and the list
  holds the code point of every digit zero.
\<close>

definition decimal_digit_zeros :: "int list" where
  "decimal_digit_zeros =
     [0x30, 0x660, 0x6F0, 0x7C0, 0x966, 0x9E6, 0xA66, 0xAE6,
      0xB66, 0xBE6, 0xC66, 0xCE6, 0xD66, 0xDE6, 0xE50, 0xED0,
      0xF20, 0x1040, 0x1090, 0x17E0, 0x1810, 0x1946, 0x19D0, 0x1A80,
      0x1A90, 0x1B50, 0x1BB0, 0x1C40, 0x1C50, 0xA620, 0xA8D0, 0xA900,
      0xA9D0, 0xA9F0, 0xAA50, 0xABF0, 0xFF10, 0x104A0, 0x10D30, 0x11066,
      0x110F0, 0x11136, 0x111D0, 0x112F0, 0x11450, 0x114D0, 0x11650, 0x116C0,
      0x11730, 0x118E0, 0x11950, 0x11C50, 0x11D50, 0x11DA0, 0x16A60, 0x16AC0,
      0x16B50, 0x1D7CE, 0x1D7D8, 0x1D7E2, 0x1D7EC, 0x1D7F6, 0x1E140, 0x1E2F0,
      0x1E950, 0x1FBF0]"

text \<open>The code point that the UTF-8 sequence at the head of \<open>s\<close> encodes, and its length.\<close>

definition utf8_head :: "string \<Rightarrow> (int \<times> nat) option" where
  "utf8_head s =
     (case map of_char (take 4 s) of
        [] \<Rightarrow> None
      | b0 # bs \<Rightarrow>
          if b0 < 0x80 then Some (b0, 1)
          else if b0 < 0xC0 then None
          else if b0 < 0xE0 then
            (case bs of b1 # _ \<Rightarrow> Some ((b0 - 0xC0) * 64 + (b1 - 0x80), 2) | _ \<Rightarrow> None)
          else if b0 < 0xF0 then
            (case bs of
               b1 # b2 # _ \<Rightarrow> Some (((b0 - 0xE0) * 64 + (b1 - 0x80)) * 64 + (b2 - 0x80), 3)
             | _ \<Rightarrow> None)
          else
            (case bs of
               b1 # b2 # b3 # _ \<Rightarrow>
                 Some ((((b0 - 0xF0) * 64 + (b1 - 0x80)) * 64 + (b2 - 0x80)) * 64 + (b3 - 0x80), 4)
             | _ \<Rightarrow> None))"

text \<open>
  The character class \<^verbatim>\<open>[\d\.]\<close> at the head of \<open>s\<close>: a dot (\<open>None\<close>) or a decimal digit
  (its value), with the number of bytes it takes.
\<close>

definition digit_or_dot_at :: "string \<Rightarrow> (nat option \<times> nat) option" where
  "digit_or_dot_at s =
     (if prefix ''.'' s then Some (None, 1)
      else
        (case utf8_head s of
           None \<Rightarrow> None
         | Some (cp, n) \<Rightarrow>
             (case List.find (\<lambda>z. z \<le> cp \<and> cp < z + 10) decimal_digit_zeros of
                None \<Rightarrow> None
              | Some z \<Rightarrow> Some (Some (nat (cp - z)), n))))"

definition digit_or_dot_len :: "string \<Rightarrow> nat" where
  "digit_or_dot_len s = (case digit_or_dot_at s of None \<Rightarrow> 0 | Some (t, n) \<Rightarrow> n)"

definition digit_or_dot_token :: "string \<Rightarrow> nat option" where
  "digit_or_dot_token s = (case digit_or_dot_at s of None \<Rightarrow> None | Some (t, n) \<Rightarrow> t)"

text \<open>
  The longest run of digits and dots at the head of a text, character by character:
  what each one is, and the number of bytes it takes. \<open>skip\<close> counts the bytes left of
  the character that was read last.
\<close>

fun digits_and_dots_from :: "nat \<Rightarrow> string \<Rightarrow> (nat option \<times> nat) list" where
  "digits_and_dots_from skip [] = []"
| "digits_and_dots_from skip (c # cs) =
     (if 0 < skip then digits_and_dots_from (skip - 1) cs
      else if digit_or_dot_len (c # cs) = 0 then []
      else (digit_or_dot_token (c # cs), digit_or_dot_len (c # cs)) #
           digits_and_dots_from (digit_or_dot_len (c # cs) - 1) cs)"

definition digits_and_dots :: "string \<Rightarrow> (nat option \<times> nat) list" where
  "digits_and_dots s = digits_and_dots_from 0 s"

text \<open>
  \<^verbatim>\<open>re.search(r"try again in ([\d\.]+)s", error_msg)\<close>: the first position where the
  literal text is followed by a non-empty run of digits and dots and then an \<open>s\<close>; the
  result is the run (group 1). A greedy run that is not followed by \<open>s\<close> cannot match
  shorter, since the character after a shorter run is a digit or a dot.
\<close>

fun re_search_try_again :: "string \<Rightarrow> string option" where
  "re_search_try_again [] = None"
| "re_search_try_again (c # cs) =
     (if prefix ''try again in '' (c # cs) then
        (let rest = drop (length ''try again in '') (c # cs);
             n = sum_list (map snd (digits_and_dots rest));
             run = take n rest;
             after = drop n rest
         in if run \<noteq> [] \<and> prefix ''s'' after then Some run else re_search_try_again cs)
      else re_search_try_again cs)"

text \<open>
  \<^verbatim>\<open>float(g)\<close> for a text \<open>g\<close> of digits and dots: \<open>None\<close> is \<^verbatim>\<open>ValueError\<close>, raised
  unless \<open>g\<close> has at least one digit and at most one dot.
\<close>

definition digits_value :: "nat option list \<Rightarrow> nat" where
  "digits_value ds = foldl (\<lambda>n d. 10 * n + (case d of Some v \<Rightarrow> v | None \<Rightarrow> 0)) 0 ds"

fun decimal_of_tokens :: "nat option list \<Rightarrow> rat option" where
  "decimal_of_tokens [] = None"
| "decimal_of_tokens (t # ts) =
     (let ip = takeWhile (\<lambda>t. t \<noteq> None) (t # ts);
          rest = dropWhile (\<lambda>t. t \<noteq> None) (t # ts);
          fp = drop 1 rest
      in if None \<in> set fp \<or> (ip = [] \<and> fp = []) then None
         else Some (of_nat (digits_value ip) + of_nat (digits_value fp) / 10 ^ length fp))"

definition float_of_decimal :: "string \<Rightarrow> rat option" where
  "float_of_decimal g = decimal_of_tokens (map fst (digits_and_dots g))"

definition wait_time_of :: "string \<Rightarrow> error + rat" where
  "wait_time_of error_msg =
     (case re_search_try_again error_msg of
        Some g \<Rightarrow> (case float_of_decimal g of None \<Rightarrow> Inl ValueError | Some t \<Rightarrow> Inr t)
      | None \<Rightarrow> Inr 10)"

function safe_chat_loop ::
  "(nat \<Rightarrow> string \<Rightarrow> error + string) \<Rightarrow> string \<Rightarrow> int \<Rightarrow> int \<Rightarrow> world \<Rightarrow> (error + string) \<times> world" where
  "safe_chat_loop api prompt max_retries attempt w =
     (if attempt < max_retries then
        (case openai_client_chat api prompt w of
           (Inr content, w1) \<Rightarrow> (Inr content, w1)
         | (Inl (RateLimitError error_msg), w1) \<Rightarrow>
             (case wait_time_of error_msg of
                Inl e \<Rightarrow> (Inl e, w1)
              | Inr wait_time \<Rightarrow>
                  safe_chat_loop api prompt max_retries (attempt + 1)
                    (w1\<lparr>sleeps := sleeps w1 @ [wait_time]\<rparr>))
         | (Inl e, w1) \<Rightarrow> (Inl e, w1))
      else (Inl TooManyAttempts, w))"
  by pat_completeness auto
termination
  by (relation "measure (\<lambda>(api, prompt, max_retries, attempt, w). nat (max_retries - attempt))") auto

declare safe_chat_loop.simps [simp del]

definition safe_chat_call ::
  "(nat \<Rightarrow> string \<Rightarrow> error + string) \<Rightarrow> string \<Rightarrow> int \<Rightarrow> world \<Rightarrow> (error + string) \<times> world" where
  "safe_chat_call api prompt max_retries w = safe_chat_loop api prompt max_retries 0 w"

text \<open>\<^verbatim>\<open>chat_router._chat\<close>; it calls \<^verbatim>\<open>_safe_chat_call\<close> with the default \<^verbatim>\<open>max_retries=5\<close>.\<close>

definition chat ::
  "(nat \<Rightarrow> string \<Rightarrow> error + string) \<Rightarrow> string \<Rightarrow> string \<Rightarrow> world \<Rightarrow> (error + string) \<times> world" where
  "chat api prompt model w =
     (if prefix ''gpt-'' model then safe_chat_call api prompt 5 w else (Inl ValueError, w))"

section \<open>matching.py\<close>

text \<open>The separator of a label is a space, an en dash (U+2013) and a space.\<close>

definition label_separator :: string where
  "label_separator = [CHR 0x20, CHR 0xE2, CHR 0x80, CHR 0x93, CHR 0x20]"

definition concept_label :: "concept \<Rightarrow> string" where
  "concept_label c =
     (case description c of
        Some d \<Rightarrow> (if d \<noteq> [] then name c @ label_separator @ d else name c)
      | None \<Rightarrow> name c)"

definition generate_concept_labels :: "concept list \<Rightarrow> string list" where
  "generate_concept_labels concepts = map concept_label concepts"

definition find_narrower_concepts :: "concept list \<Rightarrow> concept list \<Rightarrow> concept list" where
  "find_narrower_concepts current_concepts target_concepts =
     (let narrower_concept_uris = foldl (\<lambda>uris c. uris @ narrower c) [] current_concepts
      in filter (\<lambda>c. uri c \<in> set narrower_concept_uris) target_concepts)"

text \<open>
  \<^verbatim>\<open>_extract_selected_names\<close>: the dictionary \<^verbatim>\<open>selected\<close> is an association list.
  \<^verbatim>\<open>item["concept"].strip()\<close> raises \<^verbatim>\<open>AttributeError\<close> when the value is not a string;
  \<^verbatim>\<open>TypeError\<close> and \<^verbatim>\<open>ValueError\<close> of \<^verbatim>\<open>float(score)\<close> are caught.
\<close>

definition score_value :: "ext \<Rightarrow> json option \<Rightarrow> error + rat option" where
  "score_value x sc =
     (case sc of
        None \<Rightarrow> Inr None
      | Some JNull \<Rightarrow> Inr None
      | Some v \<Rightarrow>
          (case py_float x v of
             Inr f \<Rightarrow> Inr (Some f)
           | Inl TypeError \<Rightarrow> Inr None
           | Inl ValueError \<Rightarrow> Inr None
           | Inl e \<Rightarrow> Inl e))"

fun extract_selected_names ::
  "ext \<Rightarrow> json list \<Rightarrow> (string \<times> rat option) list \<Rightarrow> error + (string \<times> rat option) list" where
  "extract_selected_names x [] selected = Inr selected"
| "extract_selected_names x (item # parsed) selected =
     (case item of
        JObject d \<Rightarrow>
          (case map_of d ''concept'' of
             Some (JString s) \<Rightarrow>
               (case score_value x (map_of d ''score'') of
                  Inl e \<Rightarrow> Inl e
                | Inr score_val \<Rightarrow>
                    extract_selected_names x parsed (AList.update (strip s) score_val selected))
           | Some _ \<Rightarrow> Inl AttributeError
           | None \<Rightarrow> extract_selected_names x parsed selected)
      | JString s \<Rightarrow> extract_selected_names x parsed (AList.update (strip s) None selected)
      | _ \<Rightarrow> extract_selected_names x parsed selected)"

fun matched_loop ::
  "(string \<times> rat option) list \<Rightarrow> concept list \<Rightarrow> matched_concept list \<Rightarrow> matched_concept list" where
  "matched_loop name_with_score [] matched = matched"
| "matched_loop name_with_score (c # cs) matched =
     (case map_of name_with_score (strip (name c)) of
        Some sc \<Rightarrow>
          matched_loop name_with_score cs
            (matched @ [\<lparr>concept = c, source = ''Top-down matching'', score = sc\<rparr>])
      | None \<Rightarrow> matched_loop name_with_score cs matched)"

definition get_matched_concepts_from_response ::
  "ext \<Rightarrow> string \<Rightarrow> concept list \<Rightarrow> error + matched_concept list" where
  "get_matched_concepts_from_response x response concepts =
     (case clean_json_output response of
        Inl e \<Rightarrow> Inl e
      | Inr clean_response \<Rightarrow>
          (case json_loads x clean_response of
             None \<Rightarrow> Inr []
           | Some (JArray parsed) \<Rightarrow>
               (case extract_selected_names x parsed [] of
                  Inl e \<Rightarrow> Inl e
                | Inr name_with_score \<Rightarrow>
                    if name_with_score = [] then Inr []
                    else Inr (matched_loop name_with_score concepts []))
           | Some _ \<Rightarrow> Inr []))"

text \<open>
  \<^verbatim>\<open>_safe_get_relevant_concepts\<close>: \<open>attempts\<close> is what is left of
  \<^verbatim>\<open>range(max_retries + 1)\<close>; the first equation is the \<^verbatim>\<open>return []\<close> after the loop.
\<close>

fun safe_get_relevant_loop ::
  "ext \<Rightarrow> (nat \<Rightarrow> string \<Rightarrow> error + string) \<Rightarrow> string \<Rightarrow> string \<Rightarrow> concept list \<Rightarrow> int \<Rightarrow>
   int list \<Rightarrow> world \<Rightarrow> (error + matched_concept list) \<times> world" where
  "safe_get_relevant_loop x api prompt model top_concepts max_retries [] w = (Inr [], w)"
| "safe_get_relevant_loop x api prompt model top_concepts max_retries (attempt # attempts) w =
     (case chat api prompt model w of
        (Inl e, w1) \<Rightarrow> (Inl e, w1)
      | (Inr response, w1) \<Rightarrow>
          (case get_matched_concepts_from_response x response top_concepts of
             Inr ms \<Rightarrow> (Inr ms, w1)
           | Inl e \<Rightarrow>
               if e = TypeError \<or> e = JSONDecodeError then
                 (if attempt = max_retries then (Inl e, w1)
                  else safe_get_relevant_loop x api prompt model top_concepts max_retries attempts w1)
               else (Inl e, w1)))"

definition safe_get_relevant_concepts ::
  "ext \<Rightarrow> (nat \<Rightarrow> string \<Rightarrow> error + string) \<Rightarrow> string \<Rightarrow> string \<Rightarrow> concept list \<Rightarrow>
   world \<Rightarrow> (error + matched_concept list) \<times> world" where
  "safe_get_relevant_concepts x api prompt model top_concepts w =
     safe_get_relevant_loop x api prompt model top_concepts 1 [0..1] w"

subsection \<open>\<^verbatim>\<open>deduplicate_matches\<close>\<close>

fun deduplicate_loop ::
  "matched_concept list \<Rightarrow> string set \<Rightarrow> matched_concept list \<Rightarrow> matched_concept list" where
  "deduplicate_loop [] seen_uris deduped = deduped"
| "deduplicate_loop (m # ms) seen_uris deduped =
     (if uri (concept m) \<notin> seen_uris
      then deduplicate_loop ms (insert (uri (concept m)) seen_uris) (deduped @ [m])
      else deduplicate_loop ms seen_uris deduped)"

definition deduplicate_matches :: "matched_concept list \<Rightarrow> matched_concept list" where
  "deduplicate_matches matches = deduplicate_loop matches {} []"

subsection \<open>\<^verbatim>\<open>match_segment_topdown\<close>\<close>

text \<open>
  The loop over the batches of labels, which both steps of the function run: one prompt
  and one call of \<^verbatim>\<open>_safe_get_relevant_concepts\<close> per batch, each resolved against
  the whole of \<open>pool\<close>.
\<close>

fun query_batches ::
  "ext \<Rightarrow> (nat \<Rightarrow> string \<Rightarrow> error + string) \<Rightarrow> string \<Rightarrow> string \<Rightarrow> concept list \<Rightarrow>
   string list list \<Rightarrow> matched_concept list \<Rightarrow> world \<Rightarrow> (error + matched_concept list) \<times> world" where
  "query_batches x api model segment_text pool [] relevant w = (Inr relevant, w)"
| "query_batches x api model segment_text pool (batch_labels # batches) relevant w =
     (let prompt = build_topdown_matching_prompt x batch_labels segment_text in
      case safe_get_relevant_concepts x api prompt model pool w of
        (Inl e, w1) \<Rightarrow> (Inl e, w1)
      | (Inr relevant_batch_concepts, w1) \<Rightarrow>
          query_batches x api model segment_text pool batches (relevant @ relevant_batch_concepts) w1)"

definition label_batches :: "ext \<Rightarrow> concept list \<Rightarrow> string \<Rightarrow> int \<Rightarrow> string list list" where
  "label_batches x cs segment_text max_tokens =
     batch_concept_labels_by_tokens (tokens x)
       (build_topdown_matching_prompt x [] segment_text) (generate_concept_labels cs) max_tokens"

text \<open>Step 1, up to \<^verbatim>\<open>relevant_top_matches\<close>.\<close>

definition root_evaluation ::
  "ext \<Rightarrow> (nat \<Rightarrow> string \<Rightarrow> error + string) \<Rightarrow> segment \<Rightarrow> concept list \<Rightarrow> string \<Rightarrow> int \<Rightarrow>
   world \<Rightarrow> (error + matched_concept list) \<times> world" where
  "root_evaluation x api seg top_concepts model max_tokens w =
     query_batches x api model (seg_text seg) top_concepts
       (label_batches x top_concepts (seg_text seg) max_tokens) [] w"

text \<open>The variables of the \<^verbatim>\<open>while\<close> loop of step 2.\<close>

record td_state =
  current_matches :: "matched_concept list"
  seen_uris :: "string set"
  matches :: "matched_concept list"

definition initial_state :: "matched_concept list \<Rightarrow> td_state" where
  "initial_state relevant_top_matches =
     \<lparr>current_matches = relevant_top_matches,
      seen_uris = set (map (\<lambda>m. uri (concept m)) relevant_top_matches),
      matches = []\<rparr>"

definition new_narrower_concepts :: "concept list \<Rightarrow> td_state \<Rightarrow> concept list" where
  "new_narrower_concepts concepts st =
     (let current_concepts = map concept (current_matches st);
          narrower_concepts = find_narrower_concepts current_concepts concepts
      in filter (\<lambda>c. uri c \<notin> seen_uris st) narrower_concepts)"

text \<open>One run of the loop body: it leaves the loop, raises, or goes on with a new state.\<close>

datatype step = Break | Raise error | Next td_state

definition topdown_step ::
  "ext \<Rightarrow> (nat \<Rightarrow> string \<Rightarrow> error + string) \<Rightarrow> segment \<Rightarrow> concept list \<Rightarrow> string \<Rightarrow> int \<Rightarrow>
   td_state \<Rightarrow> world \<Rightarrow> step \<times> world" where
  "topdown_step x api seg concepts model max_tokens st w =
     (let new_narrower = new_narrower_concepts concepts st in
      if new_narrower = [] then (Break, w)
      else
        (case query_batches x api model (seg_text seg) new_narrower
                (label_batches x new_narrower (seg_text seg) max_tokens) [] w of
           (Inl e, w1) \<Rightarrow> (Raise e, w1)
         | (Inr relevant_narrower_matches, w1) \<Rightarrow>
             if relevant_narrower_matches = [] then (Break, w1)
             else
               (Next \<lparr>current_matches = relevant_narrower_matches,
                      seen_uris = seen_uris st \<union>
                        set (map (\<lambda>m. uri (concept m)) relevant_narrower_matches),
                      matches = matches st @ relevant_narrower_matches\<rparr>, w1)))"

text \<open>
  The \<^verbatim>\<open>while\<close> loop, with fuel: each run of the body takes one unit, and \<open>None\<close> means
  that the fuel ran out before the loop ended.
\<close>

fun topdown_loop ::
  "nat \<Rightarrow> ext \<Rightarrow> (nat \<Rightarrow> string \<Rightarrow> error + string) \<Rightarrow> segment \<Rightarrow> concept list \<Rightarrow> string \<Rightarrow> int \<Rightarrow>
   td_state \<Rightarrow> world \<Rightarrow> ((error + matched_concept list) \<times> world) option" where
  "topdown_loop fuel x api seg concepts model max_tokens st w =
     (if current_matches st = [] then Some (Inr (matches st), w)
      else
        (case fuel of
           0 \<Rightarrow> None
         | Suc fuel' \<Rightarrow>
             (case topdown_step x api seg concepts model max_tokens st w of
                (Break, w1) \<Rightarrow> Some (Inr (matches st), w1)
              | (Raise e, w1) \<Rightarrow> Some (Inl e, w1)
              | (Next st', w1) \<Rightarrow> topdown_loop fuel' x api seg concepts model max_tokens st' w1)))"

declare topdown_loop.simps [simp del]

definition match_segment_topdown ::
  "nat \<Rightarrow> ext \<Rightarrow> (nat \<Rightarrow> string \<Rightarrow> error + string) \<Rightarrow> segment \<Rightarrow> concept list \<Rightarrow> concept list \<Rightarrow>
   string \<Rightarrow> int \<Rightarrow> world \<Rightarrow> ((error + matched_concept list) \<times> world) option" where
  "match_segment_topdown fuel x api seg concepts top_concepts model max_tokens w =
     (case root_evaluation x api seg top_concepts model max_tokens w of
        (Inl e, w1) \<Rightarrow> Some (Inl e, w1)
      | (Inr relevant_top_matches, w1) \<Rightarrow>
          if relevant_top_matches = [] then Some (Inr [], w1)
          else topdown_loop fuel x api seg concepts model max_tokens
                 (initial_state relevant_top_matches) w1)"

subsection \<open>\<^verbatim>\<open>match_segment_to_thesaurus_based_on_exact_occurrence\<close>\<close>

definition word_pattern :: "ext \<Rightarrow> string \<Rightarrow> string" where
  "word_pattern x concept_name =
     [CHR 0x5C, CHR ''b''] @ re_escape x (str_lower x concept_name) @ [CHR 0x5C, CHR ''b'']"

fun exact_occurrence_loop ::
  "ext \<Rightarrow> string \<Rightarrow> concept list \<Rightarrow> matched_concept list \<Rightarrow> matched_concept list" where
  "exact_occurrence_loop x txt [] found = found"
| "exact_occurrence_loop x txt (c # cs) found =
     (if re_search x (word_pattern x (name c)) txt
      then exact_occurrence_loop x txt cs
             (found @ [\<lparr>concept = c, source = ''Exact occurrence'', score = Some 1\<rparr>])
      else exact_occurrence_loop x txt cs found)"

definition match_segment_to_thesaurus_based_on_exact_occurrence ::
  "ext \<Rightarrow> segment \<Rightarrow> concept list \<Rightarrow> matched_concept list" where
  "match_segment_to_thesaurus_based_on_exact_occurrence x seg concepts =
     exact_occurrence_loop x (str_lower x (seg_text seg)) concepts []"

subsection \<open>\<^verbatim>\<open>match_segment_to_thesaurus_based_on_embeddings\<close>\<close>

text \<open>
  \<^verbatim>\<open>cosine_similarity\<close> (scikit-learn) and \<^verbatim>\<open>argsort\<close> (NumPy) are external and are
  arguments of the model: \<open>cosine_similarity v m\<close> is row 0 of the similarity matrix of
  the segment vector \<open>v\<close> and the concept matrix \<open>m\<close>, \<open>argsort xs\<close> the indices that sort
  \<open>xs\<close> in ascending order. \<open>py_slice_from start xs\<close> is \<^verbatim>\<open>xs[start:]\<close>.
\<close>

definition py_slice_from :: "int \<Rightarrow> 'a list \<Rightarrow> 'a list" where
  "py_slice_from start xs =
     (let n = int (length xs)
      in drop (nat (if start < 0 then max 0 (n + start) else min start n)) xs)"

fun embedding_matches ::
  "concept list \<Rightarrow> rat list \<Rightarrow> nat list \<Rightarrow> error + matched_concept list" where
  "embedding_matches concepts similarities [] = Inr []"
| "embedding_matches concepts similarities (i # top_indices) =
     (if i < length concepts \<and> i < length similarities then
        (case embedding_matches concepts similarities top_indices of
           Inl e \<Rightarrow> Inl e
         | Inr ms \<Rightarrow>
             Inr (\<lparr>concept = concepts ! i, source = ''Embedding similarities'',
                   score = Some (similarities ! i)\<rparr> # ms))
      else Inl IndexError)"

definition match_segment_to_thesaurus_based_on_embeddings ::
  "('v \<Rightarrow> 'm \<Rightarrow> rat list) \<Rightarrow> (rat list \<Rightarrow> nat list) \<Rightarrow> 'v \<Rightarrow> 'm \<Rightarrow> concept list \<Rightarrow> int \<Rightarrow>
   error + matched_concept list" where
  "match_segment_to_thesaurus_based_on_embeddings cosine_similarity argsort
       embedded_segment embedded_concepts concepts top_k =
     (let similarities = cosine_similarity embedded_segment embedded_concepts;
          top_indices = rev (py_slice_from (- top_k) (argsort similarities))
      in embedding_matches concepts similarities top_indices)"

section \<open>Specification predicates and example data\<close>

text \<open>
  A batch respects the budget: it is not empty; the overhead and its costs fit in the
  budget, unless it is a single item that is too large on its own; and an item that is
  too large on its own is alone in its batch.
\<close>

definition within_budget :: "int \<Rightarrow> int \<Rightarrow> ('a \<Rightarrow> int) \<Rightarrow> 'a list \<Rightarrow> bool" where
  "within_budget overhead budget cost b \<longleftrightarrow>
     b \<noteq> [] \<and>
     (overhead + sum_list (map cost b) \<le> budget \<or> (length b = 1 \<and> cost (hd b) > budget - overhead)) \<and>
     (\<forall>x \<in> set b. cost x > budget - overhead \<longrightarrow> b = [x])"

text \<open>Concepts and matches for the examples: no description, category \<open>other\<close>.\<close>

definition example_concept :: "string \<Rightarrow> string \<Rightarrow> string list \<Rightarrow> string list \<Rightarrow> concept" where
  "example_concept u n schemes nar =
     \<lparr>uri = u, name = n, category = ''other'', alternate_names = None,
      description = None, top_concept = schemes, narrower = nar\<rparr>"

definition example_match :: "string \<Rightarrow> string \<Rightarrow> matched_concept" where
  "example_match u src = \<lparr>concept = example_concept u u [] [], source = src, score = None\<rparr>"







text \<open>The indices that \<^verbatim>\<open>argsort()[-top_k:][::-1]\<close> selects when \<open>top_k\<close> is positive.\<close>

definition top_k_indices :: "(rat list \<Rightarrow> nat list) \<Rightarrow> rat list \<Rightarrow> int \<Rightarrow> nat list" where
  "top_k_indices argsort similarities top_k =
     rev (drop (length similarities - nat top_k) (argsort similarities))"

text \<open>
  Instances of the external functions for the examples: a tokenizer that counts bytes, a
  prompt that lists the labels after the text, \<^verbatim>\<open>json.loads\<close> on the arrays of names
  the examples use, \<^verbatim>\<open>float\<close> on numbers, and lower case and whole-word search on
  ASCII text. \<open>replay outcomes\<close> is the service that gives the listed outcomes in turn
  and an empty array afterwards; \<open>always outcome\<close> gives the same outcome every time.
\<close>

definition ascii_lower :: "string \<Rightarrow> string" where
  "ascii_lower s =
     map (\<lambda>c. let n = (of_char c :: nat) in if 65 \<le> n \<and> n \<le> 90 then char_of (n + 32) else c) s"

definition ascii_word_char :: "char \<Rightarrow> bool" where
  "ascii_word_char c =
     (let n = (of_char c :: nat)
      in (48 \<le> n \<and> n \<le> 57) \<or> (65 \<le> n \<and> n \<le> 90) \<or> n = 95 \<or> (97 \<le> n \<and> n \<le> 122))"

fun word_occurs :: "string \<Rightarrow> bool \<Rightarrow> string \<Rightarrow> bool" where
  "word_occurs lit prev_word [] = False"
| "word_occurs lit prev_word (c # cs) =
     ((lit \<noteq> [] \<and> prefix lit (c # cs) \<and> prev_word \<noteq> ascii_word_char (hd lit) \<and>
       ascii_word_char (last lit) \<noteq>
         (case drop (length lit) (c # cs) of [] \<Rightarrow> False | d # _ \<Rightarrow> ascii_word_char d))
      \<or> word_occurs lit (ascii_word_char c) cs)"

definition example_re_search :: "string \<Rightarrow> string \<Rightarrow> bool" where
  "example_re_search pattern txt = word_occurs (take (length pattern - 4) (drop 2 pattern)) False txt"

definition names_json :: "string list \<Rightarrow> string" where
  "names_json ns = ''['' @ concat (map (\<lambda>n. [CHR 0x22] @ n @ [CHR 0x22]) ns) @ '']''"

definition example_json_loads :: "string \<Rightarrow> json option" where
  "example_json_loads =
     map_of (map (\<lambda>ns. (names_json ns, JArray (map JString ns))) [[], [''A''], [''B''], [''C'']])"

definition example_py_float :: "json \<Rightarrow> error + rat" where
  "example_py_float v =
     (case v of JFloat r \<Rightarrow> Inr r | JInt i \<Rightarrow> Inr (of_int i) | JBool b \<Rightarrow> Inr (if b then 1 else 0)
      | JString s \<Rightarrow> Inl ValueError | _ \<Rightarrow> Inl TypeError)"

definition example_prompt :: "string list \<Rightarrow> string \<Rightarrow> string" where
  "example_prompt labels txt = txt @ '' | '' @ concat (map (\<lambda>l. l @ '';'') labels)"

definition example_ext :: ext where
  "example_ext =
     \<lparr>tokens = length, build_topdown_matching_prompt = example_prompt,
      json_loads = example_json_loads, py_float = example_py_float,
      str_lower = ascii_lower, re_escape = id, re_search = example_re_search\<rparr>"

definition replay :: "(error + string) list \<Rightarrow> nat \<Rightarrow> string \<Rightarrow> error + string" where
  "replay outcomes n prompt = (if n < length outcomes then outcomes ! n else Inr ''[]'')"

text \<open>
  For the examples of the embedding matcher: the cosine similarity of vectors with
  integer entries whose norms are integers, and the indices NumPy's \<^verbatim>\<open>argsort\<close> returns
  for the three similarity vectors of the examples. NumPy's default sort is not stable:
  in general the indices of equal values come in no order that the values determine.
\<close>

definition dot_product :: "int list \<Rightarrow> int list \<Rightarrow> int" where
  "dot_product a b = sum_list (map2 (*) a b)"

definition integer_norm :: "int list \<Rightarrow> int" where
  "integer_norm v =
     (case List.find (\<lambda>r. r * r = dot_product v v) [0..dot_product v v] of
        Some r \<Rightarrow> r | None \<Rightarrow> 0)"

definition example_cosine_similarity :: "int list \<Rightarrow> int list list \<Rightarrow> rat list" where
  "example_cosine_similarity v m =
     map (\<lambda>row. of_int (dot_product v row) / of_int (integer_norm v * integer_norm row)) m"

definition example_argsort :: "rat list \<Rightarrow> nat list" where
  "example_argsort xs =
     (if xs = [1 / 2, 1 / 2] then [0, 1]
      else if xs = [1 / 2] then [0]
      else if xs = [1 / 2, 1, 0] then [2, 0, 1]
      else [])"

definition always :: "error + string \<Rightarrow> nat \<Rightarrow> string \<Rightarrow> error + string" where
  "always outcome n prompt = outcome"

text \<open>
  The thesaurus of the scenario (top concepts A and C, B narrower than A), the chain
  A, B, C, a hierarchy without cycle where B is narrower than both A and C, and one with
  the cycle A, B, A.
\<close>

definition concept_A :: concept where
  "concept_A = example_concept ''uri:A'' ''A'' [''scheme''] [''uri:B'']"
definition concept_B :: concept where
  "concept_B = example_concept ''uri:B'' ''B'' [] []"
definition concept_C :: concept where
  "concept_C = example_concept ''uri:C'' ''C'' [''scheme''] []"







definition cyclic_B :: concept where
  "cyclic_B = example_concept ''uri:B'' ''B'' [] [''uri:A'']"

definition example_segment :: segment where
  "example_segment = \<lparr>seg_start = 0, seg_end = 5, seg_text = ''text''\<rparr>"

definition westerbork_segment :: segment where
  "westerbork_segment = \<lparr>seg_start = 0, seg_end = 5, seg_text = ''The camp at Westerbork was liberated''\<rparr>"

section \<open>Token-budget batching\<close>

lemma concat_batch_labels_loop:
  "concat (batch_labels_loop enc a ls bs cur t) = concat bs @ cur @ ls"
  by (induction ls arbitrary: bs cur t) (auto simp: Let_def)

lemma concat_batch_segments_loop:
  "concat (batch_segments_loop enc d m ss bs cur t) = concat bs @ cur @ ss"
  by (induction ss arbitrary: bs cur t) (auto simp: Let_def)

lemma member_le_sum_list_int:
  fixes f :: "'a \<Rightarrow> int"
  assumes "\<forall>y \<in> set xs. 0 \<le> f y" and "x \<in> set xs"
  shows "f x \<le> sum_list (map f xs)"
  using assms
proof (induction xs)
  case Nil then show ?case by simp
next
  case (Cons a xs)
  have "0 \<le> sum_list (map f xs)" using Cons.prems(1) by (intro sum_list_nonneg) auto
  moreover have "0 \<le> f a" using Cons.prems(1) by simp
  ultimately show ?case using Cons by (cases "x = a") (auto simp: add_increasing add_increasing2)
qed

lemma within_budget_single:
  "within_budget overhead budget cost [x]"
  by (auto simp: within_budget_def)

lemma within_budget_snoc:
  assumes "\<forall>y \<in> set (b @ [x]). 0 \<le> cost y"
    and "overhead + (sum_list (map cost b) + cost x) \<le> budget"
  shows "within_budget overhead budget cost (b @ [x])"
proof -
  have "\<And>y. y \<in> set (b @ [x]) \<Longrightarrow> cost y \<le> sum_list (map cost (b @ [x]))"
    using assms(1) by (rule member_le_sum_list_int)
  then show ?thesis using assms(2) by (fastforce simp: within_budget_def)
qed

lemma batch_labels_loop_budget:
  assumes "\<forall>b \<in> set bs. within_budget overhead budget (label_token_count enc) b"
    and "t = sum_list (map (label_token_count enc) cur)"
    and "cur \<noteq> [] \<longrightarrow> within_budget overhead budget (label_token_count enc) cur"
    and "a = max 0 (budget - overhead)"
  shows "\<forall>b \<in> set (batch_labels_loop enc a ls bs cur t). within_budget overhead budget (label_token_count enc) b"
  using assms
proof (induction ls arbitrary: bs cur t)
  case Nil
  then show ?case by auto
next
  case (Cons l ls)
  let ?c = "label_token_count enc l"
  have pos: "\<And>y. 0 \<le> label_token_count enc y" by (simp add: label_token_count_def)
  show ?case
  proof (cases "t + ?c > a \<and> cur \<noteq> []")
    case True
    have "\<forall>b \<in> set (batch_labels_loop enc a ls (bs @ [cur]) [l] ?c). within_budget overhead budget (label_token_count enc) b"
      using Cons.prems True by (intro Cons.IH) (auto simp: within_budget_single)
    then show ?thesis using True by (simp add: Let_def)
  next
    case False
    have wb: "within_budget overhead budget (label_token_count enc) (cur @ [l])"
    proof (cases "cur = []")
      case True then show ?thesis by (simp add: within_budget_single)
    next
      case ne: False
      then have le: "t + ?c \<le> a" using False by simp
      have "0 < ?c" by (simp add: label_token_count_def)
      moreover have "0 \<le> t" unfolding Cons.prems(2) using pos by (intro sum_list_nonneg) auto
      ultimately have "0 < a" using le by linarith
      then have "a = budget - overhead" using Cons.prems(4) by linarith
      then have "overhead + (sum_list (map (label_token_count enc) cur) + ?c) \<le> budget"
        using le Cons.prems(2) by linarith
      then show ?thesis by (intro within_budget_snoc) (auto simp: pos)
    qed
    have "\<forall>b \<in> set (batch_labels_loop enc a ls bs (cur @ [l]) (t + ?c)). within_budget overhead budget (label_token_count enc) b"
      using Cons.prems wb by (intro Cons.IH) auto
    then show ?thesis using False by (auto simp: Let_def)
  qed
qed

lemma batch_segments_loop_budget:
  assumes "\<forall>b \<in> set bs. within_budget overhead budget (segment_token_count enc) b"
    and "t = sum_list (map (segment_token_count enc) cur)"
    and "cur \<noteq> [] \<longrightarrow> within_budget overhead budget (segment_token_count enc) cur"
  shows "\<forall>b \<in> set (batch_segments_loop enc overhead budget ss bs cur t). within_budget overhead budget (segment_token_count enc) b"
  using assms
proof (induction ss arbitrary: bs cur t)
  case Nil
  then show ?case by auto
next
  case (Cons s ss)
  let ?c = "segment_token_count enc s"
  have pos: "\<And>y. 0 \<le> segment_token_count enc y" by (simp add: segment_token_count_def)
  show ?case
  proof (cases "t + ?c + overhead > budget")
    case over: True
    show ?thesis
    proof (cases "cur = []")
      case True
      have "\<forall>b \<in> set (batch_segments_loop enc overhead budget ss bs (cur @ [s]) (t + ?c)). within_budget overhead budget (segment_token_count enc) b"
        using Cons.prems True by (intro Cons.IH) (auto simp: within_budget_single)
      then show ?thesis using over True by (simp add: Let_def)
    next
      case False
      have "\<forall>b \<in> set (batch_segments_loop enc overhead budget ss (bs @ [cur]) [s] ?c). within_budget overhead budget (segment_token_count enc) b"
        using Cons.prems False by (intro Cons.IH) (auto simp: within_budget_single)
      then show ?thesis using over False by (simp add: Let_def)
    qed
  next
    case False
    then have "overhead + (sum_list (map (segment_token_count enc) cur) + ?c) \<le> budget"
      using Cons.prems(2) by linarith
    then have wb: "within_budget overhead budget (segment_token_count enc) (cur @ [s])"
      by (intro within_budget_snoc) (auto simp: pos)
    have "\<forall>b \<in> set (batch_segments_loop enc overhead budget ss bs (cur @ [s]) (t + ?c)). within_budget overhead budget (segment_token_count enc) b"
      using Cons.prems wb by (intro Cons.IH) auto
    then show ?thesis using False by (auto simp: Let_def)
  qed
qed

text \<open>
  C2: for every input sequence, budget and overhead, the batches of
  \<^verbatim>\<open>_batch_segments_by_tokens\<close> and of \<^verbatim>\<open>_batch_concept_labels_by_tokens\<close>, concatenated in
  order, are the input sequence: nothing is lost, repeated or reordered.
\<close>

theorem batching_completeness:
  "concat (batch_segments_by_tokens enc dummy_prompt segments max_tokens) = segments \<and>
   concat (batch_concept_labels_by_tokens enc dummy_prompt' labels max_tokens') = labels"
  by (simp add: batch_segments_by_tokens_def batch_concept_labels_by_tokens_def
      concat_batch_labels_loop concat_batch_segments_loop Let_def)

text \<open>
  C3: every batch of either batcher is non-empty and stays within the budget (overhead
  plus the costs of its items), except a batch of one item whose own cost exceeds the
  budget minus the overhead; such an item is alone in its batch.
\<close>

theorem batching_budget:
  "(\<forall>b \<in> set (batch_segments_by_tokens enc dummy_prompt segments max_tokens).
      within_budget (int (enc dummy_prompt)) max_tokens (segment_token_count enc) b) \<and>
   (\<forall>b \<in> set (batch_concept_labels_by_tokens enc dummy_prompt' labels max_tokens').
      within_budget (int (enc dummy_prompt')) max_tokens' (label_token_count enc) b)"
proof
  show "\<forall>b \<in> set (batch_segments_by_tokens enc dummy_prompt segments max_tokens).
      within_budget (int (enc dummy_prompt)) max_tokens (segment_token_count enc) b"
    unfolding batch_segments_by_tokens_def by (rule batch_segments_loop_budget) auto
  show "\<forall>b \<in> set (batch_concept_labels_by_tokens enc dummy_prompt' labels max_tokens').
      within_budget (int (enc dummy_prompt')) max_tokens' (label_token_count enc) b"
    unfolding batch_concept_labels_by_tokens_def Let_def by (rule batch_labels_loop_budget) auto
qed

theorem batching_budget_witness:
  "[''ab'', ''cd''] \<in> set (batch_concept_labels_by_tokens length ''prompt''
      [''ab'', ''cd'', ''efghijklmnopqrstuvwxyz0123''] 30) \<and>
   within_budget 6 30 (label_token_count length) [''ab'', ''cd''] \<and>
   [''efghijklmnopqrstuvwxyz0123''] \<in> set (batch_concept_labels_by_tokens length ''prompt''
      [''ab'', ''cd'', ''efghijklmnopqrstuvwxyz0123''] 30) \<and>
   within_budget 6 30 (label_token_count length) [''efghijklmnopqrstuvwxyz0123''] \<and>
   [\<lparr>seg_start = 0, seg_end = 1, seg_text = '' one ''\<rparr>, \<lparr>seg_start = 1, seg_end = 2, seg_text = ''two''\<rparr>]
     \<in> set (batch_segments_by_tokens length ''prompt''
      [\<lparr>seg_start = 0, seg_end = 1, seg_text = '' one ''\<rparr>, \<lparr>seg_start = 1, seg_end = 2, seg_text = ''two''\<rparr>,
       \<lparr>seg_start = 2, seg_end = 3, seg_text = ''three''\<rparr>] 40) \<and>
   within_budget 6 40 (segment_token_count length)
     [\<lparr>seg_start = 0, seg_end = 1, seg_text = '' one ''\<rparr>, \<lparr>seg_start = 1, seg_end = 2, seg_text = ''two''\<rparr>]"
proof -
  have l: "batch_concept_labels_by_tokens length ''prompt''
      [''ab'', ''cd'', ''efghijklmnopqrstuvwxyz0123''] 30 = [[''ab'', ''cd''], [''efghijklmnopqrstuvwxyz0123'']]"
    by (simp add: batch_concept_labels_by_tokens_def label_token_count_def)
  have s: "batch_segments_by_tokens length ''prompt''
      [\<lparr>seg_start = 0, seg_end = 1, seg_text = '' one ''\<rparr>, \<lparr>seg_start = 1, seg_end = 2, seg_text = ''two''\<rparr>,
       \<lparr>seg_start = 2, seg_end = 3, seg_text = ''three''\<rparr>] 40 =
      [[\<lparr>seg_start = 0, seg_end = 1, seg_text = '' one ''\<rparr>, \<lparr>seg_start = 1, seg_end = 2, seg_text = ''two''\<rparr>],
       [\<lparr>seg_start = 2, seg_end = 3, seg_text = ''three''\<rparr>]]"
    by (simp add: batch_segments_by_tokens_def segment_token_count_def replace_newlines_def
        strip_def lstrip_def rstrip_def strip_prefixes.simps space_prefix_len_def unicode_whitespace_def)
  show ?thesis
    using batching_budget [of length "''prompt''"
        "[\<lparr>seg_start = 0, seg_end = 1, seg_text = '' one ''\<rparr>, \<lparr>seg_start = 1, seg_end = 2, seg_text = ''two''\<rparr>,
          \<lparr>seg_start = 2, seg_end = 3, seg_text = ''three''\<rparr>]" 40
        "''prompt''" "[''ab'', ''cd'', ''efghijklmnopqrstuvwxyz0123'']" 30]
    unfolding l s by simp
qed

section \<open>Deduplication\<close>

lemma deduplicate_loop_acc:
  "deduplicate_loop ms seen acc = acc @ deduplicate_loop ms seen []"
proof (induction ms arbitrary: seen acc)
  case Nil
  then show ?case by simp
next
  case (Cons m ms)
  show ?case
    using Cons.IH [of "insert (uri (concept m)) seen" "acc @ [m]"]
      Cons.IH [of "insert (uri (concept m)) seen" "[m]"] Cons.IH [of seen acc]
    by simp
qed

lemma deduplicate_loop_nths:
  "deduplicate_loop ms seen [] =
     nths ms {i. uri (concept (ms ! i)) \<notin> seen \<and> (\<forall>j<i. uri (concept (ms ! j)) \<noteq> uri (concept (ms ! i)))}"
proof (induction ms arbitrary: seen)
  case Nil
  then show ?case by simp
next
  case (Cons m ms)
  let ?u = "\<lambda>x. uri (concept x)"
  let ?A = "\<lambda>s xs. {i. ?u (xs ! i) \<notin> s \<and> (\<forall>j<i. ?u (xs ! j) \<noteq> ?u (xs ! i))}"
  have shift: "{j. Suc j \<in> ?A seen (m # ms)} = ?A (insert (?u m) seen) ms"
    by (auto simp: less_Suc_eq_0_disj)
  show ?case
  proof (cases "?u m \<in> seen")
    case True
    have "?A (insert (?u m) seen) ms = ?A seen ms" using True by auto
    then show ?thesis using True Cons.IH [of seen] shift by (simp add: nths_Cons)
  next
    case False
    then show ?thesis
      using Cons.IH [of "insert (?u m) seen"] shift
        deduplicate_loop_acc [of ms "insert (?u m) seen" "[m]"]
      by (simp add: nths_Cons)
  qed
qed

lemma deduplicate_loop_fixed:
  "distinct (map (\<lambda>m. uri (concept m)) ms) \<Longrightarrow> (\<forall>m \<in> set ms. uri (concept m) \<notin> seen) \<Longrightarrow>
   deduplicate_loop ms seen [] = ms"
proof (induction ms arbitrary: seen)
  case Nil
  then show ?case by simp
next
  case (Cons m ms)
  have "deduplicate_loop ms (insert (uri (concept m)) seen) [] = ms"
    using Cons.prems by (intro Cons.IH) (auto simp: image_iff)
  then show ?case
    using Cons.prems deduplicate_loop_acc [of ms "insert (uri (concept m)) seen" "[m]"] by simp
qed

lemma deduplicate_loop_uris:
  "distinct (map (\<lambda>m. uri (concept m)) (deduplicate_loop ms seen [])) \<and>
   (\<forall>m \<in> set (deduplicate_loop ms seen []). uri (concept m) \<notin> seen)"
proof (induction ms arbitrary: seen)
  case Nil
  then show ?case by simp
next
  case (Cons m ms)
  show ?case
    using Cons.IH [of seen] Cons.IH [of "insert (uri (concept m)) seen"]
      deduplicate_loop_acc [of ms "insert (uri (concept m)) seen" "[m]"]
    by auto
qed

text \<open>
  C8: \<^verbatim>\<open>deduplicate_matches\<close> keeps exactly the matches at the positions where a uri
  occurs for the first time, in input order; it is idempotent; and on \<open>[A, B, A, C, B]\<close>
  it returns \<open>[A, B, C]\<close>.
\<close>

theorem deduplicate_matches_first_occurrences:
  "deduplicate_matches ms =
     nths ms {i. \<forall>j<i. uri (concept (ms ! j)) \<noteq> uri (concept (ms ! i))} \<and>
   deduplicate_matches (deduplicate_matches ms) = deduplicate_matches ms \<and>
   (distinct [uri (concept a), uri (concept b), uri (concept c)] \<longrightarrow>
      deduplicate_matches [a, b, a, c, b] = [a, b, c])"
proof (intro conjI impI)
  show "deduplicate_matches ms = nths ms {i. \<forall>j<i. uri (concept (ms ! j)) \<noteq> uri (concept (ms ! i))}"
    by (simp add: deduplicate_matches_def deduplicate_loop_nths)
  show "deduplicate_matches (deduplicate_matches ms) = deduplicate_matches ms"
    unfolding deduplicate_matches_def
    using deduplicate_loop_uris [of ms "{}"] by (intro deduplicate_loop_fixed) auto
  assume "distinct [uri (concept a), uri (concept b), uri (concept c)]"
  then show "deduplicate_matches [a, b, a, c, b] = [a, b, c]"
    by (auto simp: deduplicate_matches_def)
qed

theorem deduplicate_matches_witness:
  "distinct [uri (concept (example_match ''A'' ''x'')), uri (concept (example_match ''B'' ''y'')),
             uri (concept (example_match ''C'' ''z''))] \<and>
   deduplicate_matches
     [example_match ''A'' ''x'', example_match ''B'' ''y'', example_match ''A'' ''x'',
      example_match ''C'' ''z'', example_match ''B'' ''y''] =
     [example_match ''A'' ''x'', example_match ''B'' ''y'', example_match ''C'' ''z''] \<and>
   deduplicate_matches (deduplicate_matches
     [example_match ''A'' ''x'', example_match ''B'' ''y'', example_match ''A'' ''x'',
      example_match ''C'' ''z'', example_match ''B'' ''y'']) =
   deduplicate_matches
     [example_match ''A'' ''x'', example_match ''B'' ''y'', example_match ''A'' ''x'',
      example_match ''C'' ''z'', example_match ''B'' ''y'']"
proof -
  let ?a = "example_match ''A'' ''x''" and ?b = "example_match ''B'' ''y''"
    and ?c = "example_match ''C'' ''z''"
  have dis: "distinct [uri (concept ?a), uri (concept ?b), uri (concept ?c)]"
    by (simp add: example_match_def example_concept_def)
  note t = deduplicate_matches_first_occurrences [of "[?a, ?b, ?a, ?c, ?b]" ?a ?b ?c]
  have "deduplicate_matches [?a, ?b, ?a, ?c, ?b] = [?a, ?b, ?c]"
    using t dis by blast
  moreover have "deduplicate_matches (deduplicate_matches [?a, ?b, ?a, ?c, ?b]) =
      deduplicate_matches [?a, ?b, ?a, ?c, ?b]"
    using t by blast
  ultimately show ?thesis using dis by blast
qed

section \<open>Response cleaning\<close>

text \<open>
  C6: a response that opens with \<^verbatim>\<open><think>\<close> and has no \<^verbatim>\<open></think>\<close> makes
  \<^verbatim>\<open>_clean_json_output\<close> raise \<^verbatim>\<open>IndexError\<close>, which
  \<^verbatim>\<open>_get_matched_concepts_from_response\<close> does not catch: the claim that no response
  raises fails here.
\<close>

theorem clean_json_output_unclosed_think:
  "clean_json_output ''<think>The labels are checked'' = Inl IndexError \<and>
   get_matched_concepts_from_response x ''<think>The labels are checked'' concepts = Inl IndexError"
  by (simp add: get_matched_concepts_from_response_def clean_json_output_def py_split_def fence_def
      strip_def lstrip_def rstrip_def strip_prefixes.simps space_prefix_len_def unicode_whitespace_def)

section \<open>Retrying client\<close>

text \<open>
  C7: a rate-limit message whose hint matches the pattern and is not a number
  (\<open>1.2.3\<close>) makes \<^verbatim>\<open>float\<close> raise \<^verbatim>\<open>ValueError\<close> inside the handler: the call neither
  waits the default nor retries.
\<close>

theorem safe_chat_call_malformed_hint:
  "safe_chat_call (always (Inl (RateLimitError ''Rate limit reached. Please try again in 1.2.3s.'')))
     prompt 5 \<lparr>requests = [], sleeps = []\<rparr> =
   (Inl ValueError, \<lparr>requests = [prompt], sleeps = []\<rparr>)"
proof -
  have "re_search_try_again ''Rate limit reached. Please try again in 1.2.3s.'' = Some ''1.2.3''"
    by code_simp
  moreover have "float_of_decimal ''1.2.3'' = None"
    by code_simp
  ultimately have "wait_time_of ''Rate limit reached. Please try again in 1.2.3s.'' = Inl ValueError"
    by (simp add: wait_time_of_def)
  then show ?thesis
    by (simp add: safe_chat_call_def safe_chat_loop.simps openai_client_chat_def always_def)
qed

text \<open>
  The rest of the retry policy holds for every sequence of outcomes: no hint gives the
  default wait of 10, at most \<open>max_retries\<close> requests are sent, any other error is passed
  on after one request, and rate limits with well-formed hints on every request end in
  the too-many-attempts error after \<open>max_retries\<close> requests and as many waits.
\<close>

lemma wait_time_of_default:
  "re_search_try_again error_msg = None \<Longrightarrow> wait_time_of error_msg = Inr 10"
  by (simp add: wait_time_of_def)

lemma safe_chat_loop_requests_bound:
  "safe_chat_loop api prompt max_retries attempt w = (r, w') \<Longrightarrow>
   length (requests w') \<le> length (requests w) + nat (max_retries - attempt)"
proof (induction "nat (max_retries - attempt)" arbitrary: attempt w)
  case 0
  then show ?case by (simp add: safe_chat_loop.simps)
next
  case (Suc k)
  then have lt: "attempt < max_retries" by linarith
  have k: "k = nat (max_retries - (attempt + 1))" using Suc.hyps(2) by linarith
  let ?w1 = "w\<lparr>requests := requests w @ [prompt]\<rparr>"
  note unfold = safe_chat_loop.simps [of api prompt max_retries attempt w]
  show ?case
  proof (cases "api (length (requests w)) prompt")
    case (Inr content)
    then have "w' = ?w1" using lt Suc.prems by (auto simp: unfold openai_client_chat_def)
    then show ?thesis using lt by simp
  next
    case (Inl e)
    show ?thesis
    proof (cases "\<exists>msg t. e = RateLimitError msg \<and> wait_time_of msg = Inr t")
      case True
      then obtain msg t where e: "e = RateLimitError msg" and t: "wait_time_of msg = Inr t" by blast
      have "safe_chat_loop api prompt max_retries (attempt + 1) (?w1\<lparr>sleeps := sleeps ?w1 @ [t]\<rparr>) = (r, w')"
        using lt Inl e t Suc.prems by (simp add: unfold openai_client_chat_def)
      from Suc.hyps(1) [OF k this] show ?thesis using lt by simp
    next
      case False
      have "w' = ?w1"
      proof (cases e)
        case (RateLimitError msg)
        with False obtain err where "wait_time_of msg = Inl err" by (cases "wait_time_of msg") auto
        then show ?thesis
          using lt Inl RateLimitError Suc.prems by (simp add: unfold openai_client_chat_def)
      qed (use lt Inl Suc.prems in \<open>simp_all add: unfold openai_client_chat_def\<close>)
      then show ?thesis using lt by simp
    qed
  qed
qed

lemma safe_chat_call_at_most_max_retries:
  "safe_chat_call api prompt max_retries w = (r, w') \<Longrightarrow>
   length (requests w') \<le> length (requests w) + nat max_retries"
  using safe_chat_loop_requests_bound [of api prompt max_retries 0 w r w']
  by (simp add: safe_chat_call_def)

lemma safe_chat_call_other_error:
  assumes "0 < max_retries" and "api (length (requests w)) prompt = Inl e"
    and "\<forall>msg. e \<noteq> RateLimitError msg"
  shows "safe_chat_call api prompt max_retries w = (Inl e, w\<lparr>requests := requests w @ [prompt]\<rparr>)"
  using assms
  by (cases e) (simp_all add: safe_chat_call_def safe_chat_loop.simps [of api prompt max_retries 0 w]
      openai_client_chat_def)

lemma safe_chat_loop_exhausted:
  assumes "\<forall>n. \<exists>msg t. api n prompt = Inl (RateLimitError msg) \<and> wait_time_of msg = Inr t"
  shows "\<exists>w'. safe_chat_loop api prompt max_retries attempt w = (Inl TooManyAttempts, w') \<and>
              length (requests w') = length (requests w) + nat (max_retries - attempt) \<and>
              length (sleeps w') = length (sleeps w) + nat (max_retries - attempt)"
proof (induction "nat (max_retries - attempt)" arbitrary: attempt w)
  case 0
  then show ?case by (simp add: safe_chat_loop.simps)
next
  case (Suc k)
  then have lt: "attempt < max_retries" by linarith
  from assms obtain msg t where a: "api (length (requests w)) prompt = Inl (RateLimitError msg)"
    and t: "wait_time_of msg = Inr t" by blast
  let ?w1 = "w\<lparr>requests := requests w @ [prompt]\<rparr>"
  have k: "k = nat (max_retries - (attempt + 1))" using Suc.hyps(2) by linarith
  from Suc.hyps(1) [OF k, of "?w1\<lparr>sleeps := sleeps ?w1 @ [t]\<rparr>"]
  show ?case
    using lt a t Suc.hyps(2)
    by (auto simp: safe_chat_loop.simps [of api prompt max_retries attempt w] openai_client_chat_def)
qed

section \<open>Exact occurrence\<close>

lemma exact_occurrence_loop_acc:
  "exact_occurrence_loop x txt cs acc =
     acc @ map (\<lambda>c. \<lparr>concept = c, source = ''Exact occurrence'', score = Some 1\<rparr>)
             (filter (\<lambda>c. re_search x (word_pattern x (name c)) txt) cs)"
  by (induction cs arbitrary: acc) auto

text \<open>
  C10: the result holds, in the order of the concept list, one match for each concept
  whose pattern is found in the text and none for the others, so at most one per
  concept; every match has source \<open>Exact occurrence\<close> and score 1.
\<close>

theorem exact_occurrence_one_match_per_concept:
  "map concept (match_segment_to_thesaurus_based_on_exact_occurrence x seg concepts) =
     filter (\<lambda>c. re_search x (word_pattern x (name c)) (str_lower x (seg_text seg))) concepts \<and>
   subseq (map concept (match_segment_to_thesaurus_based_on_exact_occurrence x seg concepts)) concepts \<and>
   (\<forall>m \<in> set (match_segment_to_thesaurus_based_on_exact_occurrence x seg concepts).
      source m = ''Exact occurrence'' \<and> score m = Some 1)"
proof -
  have eq: "map concept (match_segment_to_thesaurus_based_on_exact_occurrence x seg concepts) =
     filter (\<lambda>c. re_search x (word_pattern x (name c)) (str_lower x (seg_text seg))) concepts"
    by (simp add: match_segment_to_thesaurus_based_on_exact_occurrence_def
        exact_occurrence_loop_acc comp_def)
  moreover have "subseq (map concept (match_segment_to_thesaurus_based_on_exact_occurrence x seg concepts)) concepts"
    unfolding eq by simp
  moreover have "\<forall>m \<in> set (match_segment_to_thesaurus_based_on_exact_occurrence x seg concepts).
      source m = ''Exact occurrence'' \<and> score m = Some 1"
    by (auto simp: match_segment_to_thesaurus_based_on_exact_occurrence_def exact_occurrence_loop_acc)
  ultimately show ?thesis by blast
qed

theorem exact_occurrence_witness:
  "match_segment_to_thesaurus_based_on_exact_occurrence example_ext westerbork_segment
     [example_concept ''u1'' ''Wester'' [] [], example_concept ''u2'' ''Westerbork'' [] [],
      example_concept ''u3'' ''camp'' [] []] =
   [\<lparr>concept = example_concept ''u2'' ''Westerbork'' [] [], source = ''Exact occurrence'', score = Some 1\<rparr>,
    \<lparr>concept = example_concept ''u3'' ''camp'' [] [], source = ''Exact occurrence'', score = Some 1\<rparr>] \<and>
   subseq [example_concept ''u2'' ''Westerbork'' [] [], example_concept ''u3'' ''camp'' [] []]
     [example_concept ''u1'' ''Wester'' [] [], example_concept ''u2'' ''Westerbork'' [] [],
      example_concept ''u3'' ''camp'' [] []] \<and>
   source (hd (match_segment_to_thesaurus_based_on_exact_occurrence example_ext westerbork_segment
     [example_concept ''u1'' ''Wester'' [] [], example_concept ''u2'' ''Westerbork'' [] [],
      example_concept ''u3'' ''camp'' [] []])) = ''Exact occurrence''"
proof -
  let ?cs = "[example_concept ''u1'' ''Wester'' [] [], example_concept ''u2'' ''Westerbork'' [] [],
      example_concept ''u3'' ''camp'' [] []]"
  have ev: "match_segment_to_thesaurus_based_on_exact_occurrence example_ext westerbork_segment ?cs =
   [\<lparr>concept = example_concept ''u2'' ''Westerbork'' [] [], source = ''Exact occurrence'', score = Some 1\<rparr>,
    \<lparr>concept = example_concept ''u3'' ''camp'' [] [], source = ''Exact occurrence'', score = Some 1\<rparr>]"
    by code_simp
  note t = exact_occurrence_one_match_per_concept [of example_ext westerbork_segment ?cs]
  from t have "subseq (map concept (match_segment_to_thesaurus_based_on_exact_occurrence
      example_ext westerbork_segment ?cs)) ?cs" by blast
  then have sub: "subseq [example_concept ''u2'' ''Westerbork'' [] [], example_concept ''u3'' ''camp'' [] []] ?cs"
    by (simp add: ev)
  from t have "\<forall>m \<in> set (match_segment_to_thesaurus_based_on_exact_occurrence
      example_ext westerbork_segment ?cs). source m = ''Exact occurrence'' \<and> score m = Some 1" by blast
  then have "source (hd (match_segment_to_thesaurus_based_on_exact_occurrence
      example_ext westerbork_segment ?cs)) = ''Exact occurrence''"
    unfolding ev by simp
  with ev sub show ?thesis by blast
qed

section \<open>Top-down matching\<close>

lemma strip_A [simp]: "strip ''A'' = ''A''" "strip ''B'' = ''B''" "strip ''C'' = ''C''"
  by (simp_all add: strip_def lstrip_def rstrip_def strip_prefixes.simps space_prefix_len_def unicode_whitespace_def)





subsection \<open>Termination\<close>

lemma matched_loop_concepts:
  "concept ` set (matched_loop nws cs acc) \<subseteq> concept ` set acc \<union> set cs"
proof (induction cs arbitrary: acc)
  case Nil
  then show ?case by simp
next
  case (Cons c cs)
  show ?case
  proof (cases "map_of nws (strip (name c))")
    case None
    then show ?thesis using Cons.IH [of acc] by auto
  next
    case (Some sc)
    then show ?thesis
      using Cons.IH [of "acc @ [\<lparr>concept = c, source = ''Top-down matching'', score = sc\<rparr>]"]
      by auto
  qed
qed

lemma get_matched_concepts_from_pool:
  assumes "get_matched_concepts_from_response x response pool = Inr ms"
  shows "concept ` set ms \<subseteq> set pool"
proof -
  have "concept ` set (matched_loop nws pool []) \<subseteq> set pool" for nws
    using matched_loop_concepts [of nws pool "[]"] by simp
  then show ?thesis
    using assms
    by (auto simp: get_matched_concepts_from_response_def
        split: sum.splits option.splits json.splits if_splits)
qed

lemma safe_get_relevant_loop_from_pool:
  assumes "safe_get_relevant_loop x api prompt model pool max_retries attempts w = (Inr ms, w')"
  shows "concept ` set ms \<subseteq> set pool"
  using assms
proof (induction attempts arbitrary: w)
  case Nil
  then show ?case by simp
next
  case (Cons a attempts)
  show ?case
  proof (cases "chat api prompt model w")
    case (Pair r w1)
    show ?thesis
    proof (cases r)
      case (Inl e)
      then show ?thesis using Cons.prems Pair by simp
    next
      case (Inr response)
      show ?thesis
      proof (cases "get_matched_concepts_from_response x response pool")
        case ok: (Inr ms')
        then have "ms = ms'" using Cons.prems Pair Inr by simp
        then show ?thesis using get_matched_concepts_from_pool [OF ok] by simp
      next
        case (Inl e)
        then show ?thesis
          using Cons.prems Pair Inr Cons.IH [of w1] by (auto split: if_splits)
      qed
    qed
  qed
qed

lemma query_batches_from_pool:
  assumes "query_batches x api model txt pool batches acc w = (Inr ms, w')"
  shows "concept ` set ms \<subseteq> concept ` set acc \<union> set pool"
  using assms
proof (induction batches arbitrary: acc w)
  case Nil
  then show ?case by auto
next
  case (Cons b batches)
  let ?p = "build_topdown_matching_prompt x b txt"
  obtain r w1 where q: "safe_get_relevant_concepts x api ?p model pool w = (r, w1)"
    by (cases "safe_get_relevant_concepts x api ?p model pool w")
  show ?case
  proof (cases r)
    case (Inl e)
    then show ?thesis using Cons.prems q by (simp add: Let_def)
  next
    case (Inr rel)
    have rel: "concept ` set rel \<subseteq> set pool"
      using q Inr safe_get_relevant_loop_from_pool
      unfolding safe_get_relevant_concepts_def by blast
    have "query_batches x api model txt pool batches (acc @ rel) w1 = (Inr ms, w')"
      using Cons.prems q Inr by (simp add: Let_def)
    from Cons.IH [OF this] have "concept ` set ms \<subseteq> concept ` set (acc @ rel) \<union> set pool" .
    with rel show ?thesis by (simp add: image_Un) blast
  qed
qed

lemma new_narrower_concepts_sub:
  "c \<in> set (new_narrower_concepts concepts st) \<Longrightarrow>
     c \<in> set concepts \<and> uri c \<notin> seen_uris st \<and>
     (\<exists>m \<in> set (current_matches st). uri c \<in> set (narrower (concept m)))"
proof -
  have fold: "set (foldl (\<lambda>uris c. uris @ narrower c) acc cs) = set acc \<union> (\<Union>c \<in> set cs. set (narrower c))"
    for acc :: "string list" and cs :: "concept list"
    by (induction cs arbitrary: acc) auto
  assume "c \<in> set (new_narrower_concepts concepts st)"
  then show ?thesis
    by (auto simp: new_narrower_concepts_def find_narrower_concepts_def Let_def fold)
qed

lemma topdown_step_Next:
  assumes "topdown_step x api seg concepts model max_tokens st w = (Next st', w')"
  shows "current_matches st' \<noteq> []"
    and "concept ` set (current_matches st') \<subseteq> set (new_narrower_concepts concepts st)"
    and "seen_uris st' = seen_uris st \<union> (\<lambda>m. uri (concept m)) ` set (current_matches st')"
    and "matches st' = matches st @ current_matches st'"
proof -
  let ?nn = "new_narrower_concepts concepts st"
  obtain r w1 where q: "query_batches x api model (seg_text seg) ?nn
      (label_batches x ?nn (seg_text seg) max_tokens) [] w = (r, w1)"
    by (cases "query_batches x api model (seg_text seg) ?nn
      (label_batches x ?nn (seg_text seg) max_tokens) [] w")
  from assms q obtain rel where r: "r = Inr rel" and ne: "rel \<noteq> []"
    and st': "st' = \<lparr>current_matches = rel,
                     seen_uris = seen_uris st \<union> set (map (\<lambda>m. uri (concept m)) rel),
                     matches = matches st @ rel\<rparr>"
    by (auto simp: topdown_step_def Let_def split: if_splits sum.splits)
  have "concept ` set rel \<subseteq> set ?nn"
    using query_batches_from_pool [of x api model "seg_text seg" ?nn _ "[]" w rel w1] q r by simp
  then show "concept ` set (current_matches st') \<subseteq> set ?nn" by (simp add: st')
  show "current_matches st' \<noteq> []" by (simp add: st' ne)
  show "seen_uris st' = seen_uris st \<union> (\<lambda>m. uri (concept m)) ` set (current_matches st')"
    by (simp add: st')
  show "matches st' = matches st @ current_matches st'" by (simp add: st')
qed

lemma topdown_step_seen_grows:
  assumes "topdown_step x api seg concepts model max_tokens st w = (Next st', w')"
  shows "seen_uris st \<subset> seen_uris st'" and "seen_uris st' \<subseteq> seen_uris st \<union> uri ` set concepts"
proof -
  note n = topdown_step_Next [OF assms]
  from n(1) obtain m where m: "m \<in> set (current_matches st')" by (cases "current_matches st'") auto
  then have "concept m \<in> set (new_narrower_concepts concepts st)" using n(2) by auto
  then have "uri (concept m) \<notin> seen_uris st" using new_narrower_concepts_sub by blast
  moreover have "uri (concept m) \<in> seen_uris st'" using m n(3) by auto
  ultimately show "seen_uris st \<subset> seen_uris st'" using n(3) by auto
  show "seen_uris st' \<subseteq> seen_uris st \<union> uri ` set concepts"
  proof
    fix u assume "u \<in> seen_uris st'"
    then consider "u \<in> seen_uris st" | m' where "m' \<in> set (current_matches st')" "u = uri (concept m')"
      using n(3) by auto
    then show "u \<in> seen_uris st \<union> uri ` set concepts"
    proof cases
      case 1 then show ?thesis by simp
    next
      case 2
      then have "concept m' \<in> set (new_narrower_concepts concepts st)" using n(2) by auto
      then have "concept m' \<in> set concepts" using new_narrower_concepts_sub by blast
      then show ?thesis using 2 by auto
    qed
  qed
qed

text \<open>More fuel does not change a result: the fuel only bounds the runs of the loop.\<close>

lemma topdown_loop_more_fuel:
  "topdown_loop fuel x api seg concepts model max_tokens st w = Some r \<Longrightarrow>
   topdown_loop (fuel + k) x api seg concepts model max_tokens st w = Some r"
proof (induction fuel arbitrary: st w)
  case 0
  then show ?case by (simp add: topdown_loop.simps [of _ x api seg concepts model max_tokens st w] split: if_splits nat.splits)
next
  case (Suc fuel)
  obtain s w1 where step: "topdown_step x api seg concepts model max_tokens st w = (s, w1)"
    by (cases "topdown_step x api seg concepts model max_tokens st w")
  show ?case
  proof (cases "current_matches st = []")
    case True
    then show ?thesis using Suc.prems by (simp add: topdown_loop.simps [of _ x api seg concepts model max_tokens st w])
  next
    case False
    show ?thesis
    proof (cases s)
      case (Next st')
      then have "topdown_loop fuel x api seg concepts model max_tokens st' w1 = Some r"
        using Suc.prems step False by (simp add: topdown_loop.simps [of "Suc fuel"])
      from Suc.IH [OF this] show ?thesis
        using step Next False by (simp add: topdown_loop.simps [of "Suc (fuel + k)"])
    qed (use Suc.prems step False in \<open>simp_all add: topdown_loop.simps [of "Suc _" x api seg concepts model max_tokens st w]\<close>)
  qed
qed

lemma topdown_loop_fuel_enough:
  "card (uri ` set concepts - seen_uris st) < fuel \<Longrightarrow>
   \<exists>r. topdown_loop fuel x api seg concepts model max_tokens st w = Some r"
proof (induction fuel arbitrary: st w)
  case 0
  then show ?case by simp
next
  case (Suc fuel)
  obtain s w1 where step: "topdown_step x api seg concepts model max_tokens st w = (s, w1)"
    by (cases "topdown_step x api seg concepts model max_tokens st w")
  show ?case
  proof (cases s)
    case Break
    then show ?thesis using step by (simp add: topdown_loop.simps [of "Suc fuel"])
  next
    case (Raise e)
    then show ?thesis using step by (simp add: topdown_loop.simps [of "Suc fuel"])
  next
    case (Next st')
    have nx: "topdown_step x api seg concepts model max_tokens st w = (Next st', w1)"
      using step Next by simp
    have g: "seen_uris st \<subset> seen_uris st'" "seen_uris st' \<subseteq> seen_uris st \<union> uri ` set concepts"
      by (rule topdown_step_seen_grows [OF nx])+
    have "uri ` set concepts - seen_uris st' \<subset> uri ` set concepts - seen_uris st"
      using g by blast
    then have "card (uri ` set concepts - seen_uris st') < card (uri ` set concepts - seen_uris st)"
      by (intro psubset_card_mono) auto
    then have "card (uri ` set concepts - seen_uris st') < fuel" using Suc.prems by simp
    from Suc.IH [OF this] show ?thesis
      using step Next by (simp add: topdown_loop.simps [of "Suc fuel"])
  qed
qed

text \<open>
  C5: for every hierarchy, with or without cycles, and every sequence of outcomes of
  the service, each run of the loop body that goes on adds a uri of the pool to
  \<open>seen_uris\<close>, and the loop ends: one more run than there are unseen uris in the pool
  is enough fuel, so \<^verbatim>\<open>match_segment_topdown\<close> returns.
\<close>

theorem topdown_loop_terminates:
  "(\<forall>st' w'. topdown_step x api seg concepts model max_tokens st w = (Next st', w') \<longrightarrow>
      seen_uris st \<subset> seen_uris st' \<and> seen_uris st' \<subseteq> seen_uris st \<union> uri ` set concepts) \<and>
   (\<exists>r. topdown_loop (Suc (card (uri ` set concepts - seen_uris st))) x api seg concepts
           model max_tokens st w = Some r) \<and>
   (\<exists>r. match_segment_topdown (Suc (length concepts)) x api seg concepts top_concepts
           model max_tokens w0 = Some r)"
proof (intro conjI allI impI)
  fix st' w'
  assume "topdown_step x api seg concepts model max_tokens st w = (Next st', w')"
  then show "seen_uris st \<subset> seen_uris st'" "seen_uris st' \<subseteq> seen_uris st \<union> uri ` set concepts"
    by (rule topdown_step_seen_grows)+
next
  show "\<exists>r. topdown_loop (Suc (card (uri ` set concepts - seen_uris st))) x api seg concepts
           model max_tokens st w = Some r"
    by (rule topdown_loop_fuel_enough) simp
next
  have le: "card (uri ` set concepts - s) < Suc (length concepts)" for s
  proof -
    have "card (uri ` set concepts - s) \<le> card (uri ` set concepts)"
      by (intro card_mono) auto
    also have "\<dots> \<le> card (set concepts)" by (intro card_image_le) simp
    also have "\<dots> \<le> length concepts" by (rule card_length)
    finally show ?thesis by simp
  qed
  show "\<exists>r. match_segment_topdown (Suc (length concepts)) x api seg concepts top_concepts
           model max_tokens w0 = Some r"
    using topdown_loop_fuel_enough [OF le]
    by (auto simp: match_segment_topdown_def split: prod.splits sum.splits)
qed

theorem topdown_loop_terminates_witness:
  "topdown_step example_ext
     (replay [Inr (names_json [''A'']), Inr (names_json [''B'']), Inr (names_json [''A''])])
     example_segment [concept_A, cyclic_B] ''gpt-4.1'' 800000
     (initial_state [\<lparr>concept = concept_A, source = ''Top-down matching'', score = None\<rparr>])
     \<lparr>requests = [''text | A;''], sleeps = []\<rparr> =
   (Next \<lparr>current_matches = [\<lparr>concept = cyclic_B, source = ''Top-down matching'', score = None\<rparr>],
          seen_uris = {''uri:A'', ''uri:B''},
          matches = [\<lparr>concept = cyclic_B, source = ''Top-down matching'', score = None\<rparr>]\<rparr>,
    \<lparr>requests = [''text | A;'', ''text | B;''], sleeps = []\<rparr>) \<and>
   seen_uris (initial_state [\<lparr>concept = concept_A, source = ''Top-down matching'', score = None\<rparr>])
     \<subset> {''uri:A'', ''uri:B''} \<and>
   match_segment_topdown (Suc (length [concept_A, cyclic_B])) example_ext
     (replay [Inr (names_json [''A'']), Inr (names_json [''B'']), Inr (names_json [''A''])])
     example_segment [concept_A, cyclic_B] [concept_A] ''gpt-4.1'' 800000
     \<lparr>requests = [], sleeps = []\<rparr> =
   Some (Inr [\<lparr>concept = cyclic_B, source = ''Top-down matching'', score = None\<rparr>],
         \<lparr>requests = [''text | A;'', ''text | B;''], sleeps = []\<rparr>)"
proof -
  let ?api = "replay [Inr (names_json [''A'']), Inr (names_json [''B'']), Inr (names_json [''A''])]"
  let ?st0 = "initial_state [\<lparr>concept = concept_A, source = ''Top-down matching'', score = None\<rparr>]"
  let ?w1 = "\<lparr>requests = [''text | A;''], sleeps = []\<rparr>"
  let ?st1 = "\<lparr>current_matches = [\<lparr>concept = cyclic_B, source = ''Top-down matching'', score = None\<rparr>],
          seen_uris = {''uri:A'', ''uri:B''},
          matches = [\<lparr>concept = cyclic_B, source = ''Top-down matching'', score = None\<rparr>]\<rparr>"
  let ?w2 = "\<lparr>requests = [''text | A;'', ''text | B;''], sleeps = []\<rparr>"
  have step: "topdown_step example_ext ?api example_segment [concept_A, cyclic_B] ''gpt-4.1'' 800000
      ?st0 ?w1 = (Next ?st1, ?w2)"
    by code_simp
  have run: "match_segment_topdown (Suc (length [concept_A, cyclic_B])) example_ext ?api
     example_segment [concept_A, cyclic_B] [concept_A] ''gpt-4.1'' 800000
     \<lparr>requests = [], sleeps = []\<rparr> =
   Some (Inr [\<lparr>concept = cyclic_B, source = ''Top-down matching'', score = None\<rparr>], ?w2)"
    by code_simp
  note t = topdown_loop_terminates [where x = example_ext and api = ?api
      and seg = example_segment and concepts = "[concept_A, cyclic_B]" and model = "''gpt-4.1''"
      and max_tokens = 800000 and st = ?st0 and w = ?w1]
  from t step have "seen_uris ?st0 \<subset> seen_uris ?st1" by blast
  then have "seen_uris ?st0 \<subset> {''uri:A'', ''uri:B''}" by simp
  then show ?thesis using step run by blast
qed

subsection \<open>Root matches\<close>





subsection \<open>Levels\<close>



















section \<open>Embedding similarity\<close>

lemma py_slice_from_last:
  "0 < k \<Longrightarrow> py_slice_from (- k) xs = drop (length xs - nat k) xs"
  by (auto simp: py_slice_from_def Let_def max_def nat_diff_distrib' intro: arg_cong2 [where f = drop])

lemma embedding_matches_in_range:
  "\<forall>i \<in> set is. i < length concepts \<and> i < length similarities \<Longrightarrow>
   embedding_matches concepts similarities is =
     Inr (map (\<lambda>i. \<lparr>concept = concepts ! i, source = ''Embedding similarities'',
                      score = Some (similarities ! i)\<rparr>) is)"
  by (induction "is") auto

text \<open>
  C9, as amended: given a segment vector, a concept matrix whose similarities are
  aligned with the concept list, a positive \<open>top_k\<close> and an \<open>argsort\<close> that returns the
  indices in ascending order of similarity, the result holds the \<open>min top_k n\<close> concepts
  of highest cosine similarity, in descending order of similarity, each with source
  \<open>Embedding similarities\<close> and its similarity as score. Concepts of equal similarity
  come in the reverse of the order in which \<open>argsort\<close> returns them; nothing orders them
  by their place in the concept list.
\<close>

theorem embeddings_top_k:
  assumes k: "0 < top_k"
    and aligned: "length concepts = length (cosine_similarity embedded_segment embedded_concepts)"
    and perm: "mset (argsort (cosine_similarity embedded_segment embedded_concepts)) =
               mset [0..<length (cosine_similarity embedded_segment embedded_concepts)]"
    and asc: "sorted (map (\<lambda>i. cosine_similarity embedded_segment embedded_concepts ! i)
                 (argsort (cosine_similarity embedded_segment embedded_concepts)))"
  shows "match_segment_to_thesaurus_based_on_embeddings cosine_similarity argsort
           embedded_segment embedded_concepts concepts top_k =
           Inr (map (\<lambda>i. \<lparr>concept = concepts ! i, source = ''Embedding similarities'',
                            score = Some (cosine_similarity embedded_segment embedded_concepts ! i)\<rparr>)
                    (top_k_indices argsort (cosine_similarity embedded_segment embedded_concepts) top_k)) \<and>
         top_k_indices argsort (cosine_similarity embedded_segment embedded_concepts) top_k =
           rev (drop (length concepts - nat top_k)
                  (argsort (cosine_similarity embedded_segment embedded_concepts))) \<and>
         length (top_k_indices argsort (cosine_similarity embedded_segment embedded_concepts) top_k) =
           min (nat top_k) (length concepts) \<and>
         distinct (top_k_indices argsort (cosine_similarity embedded_segment embedded_concepts) top_k) \<and>
         (\<forall>i \<in> set (top_k_indices argsort (cosine_similarity embedded_segment embedded_concepts) top_k).
            i < length concepts) \<and>
         sorted (rev (map (\<lambda>i. cosine_similarity embedded_segment embedded_concepts ! i)
            (top_k_indices argsort (cosine_similarity embedded_segment embedded_concepts) top_k))) \<and>
         (\<forall>j < length concepts.
            j \<notin> set (top_k_indices argsort (cosine_similarity embedded_segment embedded_concepts) top_k) \<longrightarrow>
            (\<forall>i \<in> set (top_k_indices argsort (cosine_similarity embedded_segment embedded_concepts) top_k).
               cosine_similarity embedded_segment embedded_concepts ! j \<le>
               cosine_similarity embedded_segment embedded_concepts ! i))"
proof -
  define similarities where "similarities = cosine_similarity embedded_segment embedded_concepts"
  let ?n = "length similarities"
  let ?as = "argsort similarities"
  let ?d = "?n - nat top_k"
  let ?top = "top_k_indices argsort similarities top_k"
  note aligned = aligned [folded similarities_def]
  note perm = perm [folded similarities_def]
  note asc = asc [folded similarities_def]
  have set_as: "set ?as = {0..<?n}" using perm by (metis mset_eq_setD set_upt)
  have len_as: "length ?as = ?n" using perm by (metis length_upt mset_eq_length minus_nat.diff_0)
  have dist_as: "distinct ?as" using perm by (metis distinct_upt mset_eq_imp_distinct_iff)
  have top: "?top = rev (drop ?d ?as)" by (simp add: top_k_indices_def)
  have range: "\<forall>i \<in> set ?top. i < length concepts \<and> i < ?n"
    using set_as aligned by (auto simp: top dest: in_set_dropD)
  have res: "match_segment_to_thesaurus_based_on_embeddings cosine_similarity argsort
           embedded_segment embedded_concepts concepts top_k =
           Inr (map (\<lambda>i. \<lparr>concept = concepts ! i, source = ''Embedding similarities'',
                            score = Some (similarities ! i)\<rparr>) ?top)"
    using embedding_matches_in_range [OF range] k
    by (simp add: match_segment_to_thesaurus_based_on_embeddings_def py_slice_from_last len_as top
        similarities_def [symmetric])
  have top': "?top = rev (drop (length concepts - nat top_k) ?as)" by (simp add: top aligned)
  have len: "length ?top = min (nat top_k) (length concepts)"
    using k by (simp add: top len_as aligned)
  have dist: "distinct ?top" using dist_as by (simp add: top)
  have range': "\<forall>i \<in> set ?top. i < length concepts" using range by simp
  have "sorted (drop ?d (map (\<lambda>i. similarities ! i) ?as))" using asc by (rule sorted_wrt_drop)
  then have desc: "sorted (rev (map (\<lambda>i. similarities ! i) ?top))"
    by (simp add: top rev_map drop_map)
  have best: "\<forall>j < length concepts. j \<notin> set ?top \<longrightarrow> (\<forall>i \<in> set ?top. similarities ! j \<le> similarities ! i)"
  proof (intro allI impI ballI)
    fix j i
    assume j: "j < length concepts" and nj: "j \<notin> set ?top" and i: "i \<in> set ?top"
    have "j \<in> set ?as" using j set_as aligned by simp
    then have "j \<in> set (take ?d ?as) \<union> set (drop ?d ?as)" by (metis append_take_drop_id set_append)
    then have jt: "j \<in> set (take ?d ?as)" using nj by (simp add: top)
    have id: "i \<in> set (drop ?d ?as)" using i by (simp add: top)
    have "sorted (map (\<lambda>i. similarities ! i) (take ?d ?as) @ map (\<lambda>i. similarities ! i) (drop ?d ?as))"
      using asc by (metis append_take_drop_id map_append)
    then show "similarities ! j \<le> similarities ! i"
      using jt id by (auto simp: sorted_append)
  qed
  from res top' len dist range' desc best show ?thesis
    unfolding similarities_def by blast
qed

theorem embeddings_top_k_witness:
  "match_segment_to_thesaurus_based_on_embeddings example_cosine_similarity example_argsort
     [1, 0, 0, 0] [[1, 1, 1, 1], [1, 0, 0, 0], [0, 1, 0, 0]]
     [concept_A, concept_B, concept_C] 2 =
   Inr [\<lparr>concept = concept_B, source = ''Embedding similarities'', score = Some 1\<rparr>,
        \<lparr>concept = concept_A, source = ''Embedding similarities'', score = Some (1 / 2)\<rparr>] \<and>
   top_k_indices example_argsort
     (example_cosine_similarity [1, 0, 0, 0] [[1, 1, 1, 1], [1, 0, 0, 0], [0, 1, 0, 0]]) 2 = [1, 0]"
proof -
  let ?v = "[1, 0, 0, 0] :: int list"
  let ?m = "[[1, 1, 1, 1], [1, 0, 0, 0], [0, 1, 0, 0]] :: int list list"
  have sims: "example_cosine_similarity ?v ?m = [1 / 2, 1, 0]" by code_simp
  have as: "example_argsort [1 / 2, 1, 0] = [2, 0, 1]" by (simp add: example_argsort_def)
  have k: "(0::int) < 2" by simp
  have aligned: "length [concept_A, concept_B, concept_C] = length (example_cosine_similarity ?v ?m)"
    by (simp add: sims)
  have perm: "mset (example_argsort (example_cosine_similarity ?v ?m)) =
      mset [0..<length (example_cosine_similarity ?v ?m)]"
    by (simp add: sims as upt_rec)
  have asc: "sorted (map (\<lambda>i. example_cosine_similarity ?v ?m ! i)
      (example_argsort (example_cosine_similarity ?v ?m)))"
    by (simp add: sims as)
  have top: "top_k_indices example_argsort (example_cosine_similarity ?v ?m) 2 = [1, 0]"
    by (simp add: top_k_indices_def sims as)
  note t = embeddings_top_k [where cosine_similarity = example_cosine_similarity
      and argsort = example_argsort and embedded_segment = ?v and embedded_concepts = ?m
      and concepts = "[concept_A, concept_B, concept_C]" and top_k = 2, OF k aligned perm asc]
  from t [THEN conjunct1] have "match_segment_to_thesaurus_based_on_embeddings
      example_cosine_similarity example_argsort ?v ?m [concept_A, concept_B, concept_C] 2 =
    Inr [\<lparr>concept = concept_B, source = ''Embedding similarities'', score = Some 1\<rparr>,
         \<lparr>concept = concept_A, source = ''Embedding similarities'', score = Some (1 / 2)\<rparr>]"
    by (simp add: sims top_k_indices_def as)
  with top show ?thesis by (rule conjI [rotated])
qed

text \<open>
  The claim as stated fails: two concepts of equal similarity come out in the reverse
  of their order in the concept list; and for \<open>top_k = 0\<close> the slice \<^verbatim>\<open>[-0:]\<close> keeps every
  index, so all concepts are returned.
\<close>

theorem embeddings_ties_and_zero_counterexample:
  "match_segment_to_thesaurus_based_on_embeddings example_cosine_similarity example_argsort
     [1, 0, 0, 0] [[1, 1, 1, 1], [1, - 1, 1, - 1]] [concept_A, concept_B] 2 =
     Inr [\<lparr>concept = concept_B, source = ''Embedding similarities'', score = Some (1 / 2)\<rparr>,
          \<lparr>concept = concept_A, source = ''Embedding similarities'', score = Some (1 / 2)\<rparr>] \<and>
   match_segment_to_thesaurus_based_on_embeddings example_cosine_similarity example_argsort
     [1, 0, 0, 0] [[1, 1, 1, 1]] [concept_A] 0 =
     Inr [\<lparr>concept = concept_A, source = ''Embedding similarities'', score = Some (1 / 2)\<rparr>]"
  by code_simp

end
